theory Spec2Isabelle
  imports Main "HOL-Library.Multiset"
begin

section \<open>Face-centred crop: the geometry of \<open>calculate_crop_region\<close>\<close>

text \<open>
  Boxes are the 4-tuples \<open>(x, y, w, h)\<close> that the detector returns and that the source
  indexes as \<open>e[0]\<close> .. \<open>e[3]\<close>; a crop region is the 4-tuple
  \<open>(left, top, right, bottom)\<close> that \<open>calculate_crop_region\<close> returns.
  Python's \<open>//\<close> is floor division, which is \<open>div\<close> on \<open>int\<close>.

  The definitions of this section compute in the integers. That is what the program
  computes on the boxes of a detector: they lie inside a decoded image, which OpenCV
  limits to \<open>2^20\<close> pixels a side, and no sum of the source comes near the ends of the
  32-bit range there. The boxes are 32-bit numpy integers, though, and the next section
  gives the same code with the wrap-around of that arithmetic written out, and the
  range of boxes on which the two agree.
\<close>

type_synonym box = "int \<times> int \<times> int \<times> int"
type_synonym region = "int \<times> int \<times> int \<times> int"

text \<open>
  \<open>eyes_sorted = sorted(eyes, key=lambda e: e[0])\<close>. Python's \<open>sorted\<close> is a stable
  sort; \<open>sort_key\<close> is the stable insertion sort of the list library
  (\<open>sort_key_stable\<close>), and a stable sort by a key is unique.
\<close>

definition eyes_sorted :: "box list \<Rightarrow> box list" where
  "eyes_sorted eyes = sort_key (\<lambda>e. fst e) eyes"

text \<open>
  Lines 62-75 of \<open>calculate_crop_region\<close>: the pair \<open>(face_x, face_y)\<close>.
  \<open>eyes_sorted[0]\<close> and \<open>eyes_sorted[-1]\<close> are read only when the list has two
  boxes or more, so neither read can fail.
\<close>

definition face_position :: "box \<Rightarrow> box list \<Rightarrow> int \<times> int" where
  "face_position face eyes =
     (case face of (fx, fy, fw, fh) \<Rightarrow>
        if length eyes \<ge> 2 then
          (case hd (eyes_sorted eyes) of (lx, ly, lw, lh) \<Rightarrow>
           case last (eyes_sorted eyes) of (rx, ry, rw, rh) \<Rightarrow>
             ((lx + lw div 2 + rx + rw div 2) div 2,
              (ly + lh div 2 + ry + rh div 2) div 2))
        else (fx + fw div 2, fy + fh div 2))"

text \<open>
  Lines 77-118 of \<open>calculate_crop_region\<close>: from \<open>(face_x, face_y)\<close> and the image's
  width \<open>w\<close> and height \<open>h\<close> to the returned tuple. Each rebinding of a variable in
  the source is a rebinding in the \<open>let\<close>; the unused variable \<open>shift\<close> is dropped.
\<close>

definition crop_bounds :: "int \<Rightarrow> int \<Rightarrow> int \<Rightarrow> int \<Rightarrow> region" where
  "crop_bounds w h face_x face_y =
     (let target_x = 256;
          target_y = 170;
          crop_left = face_x - target_x;
          crop_top = face_y - target_y;
          crop_right = crop_left + 512;
          crop_bottom = crop_top + 512;
          (crop_left, crop_right) =
             (if crop_left < 0 then (0, 512)
              else if crop_right > w then (w - 512, w)
              else (crop_left, crop_right));
          (crop_top, crop_bottom) =
             (if crop_top < 0 then (0, 512)
              else if crop_bottom > h then (h - 512, h)
              else (crop_top, crop_bottom));
          crop_left = max 0 crop_left;
          crop_top = max 0 crop_top;
          crop_right = min w (crop_left + 512);
          crop_bottom = min h (crop_top + 512)
      in (crop_left, crop_top, crop_right, crop_bottom))"

text \<open>
  The whole function; its first argument is \<open>image.shape[:2]\<close>, the pair
  \<open>(h, w)\<close> of rows and columns.
\<close>

definition calculate_crop_region :: "int \<times> int \<Rightarrow> box \<Rightarrow> box list \<Rightarrow> region" where
  "calculate_crop_region shape face eyes =
     (case shape of (h, w) \<Rightarrow>
      case face_position face eyes of (face_x, face_y) \<Rightarrow>
        crop_bounds w h face_x face_y)"

section \<open>\<open>calculate_crop_region\<close> on 32-bit numpy integers\<close>

text \<open>
  A result of numpy's \<open>int32\<close> arithmetic: the value reduced to the range
  \<open>-2^31 .. 2^31 - 1\<close>. numpy wraps a scalar that overflows (it warns, it does not
  raise).
\<close>

definition wrap32 :: "int \<Rightarrow> int" where
  "wrap32 v = (v + 2147483648) mod 4294967296 - 2147483648"

text \<open>
  Lines 62-75 on \<open>int32\<close> boxes. Under numpy 2 an operation of an \<open>int32\<close> scalar
  with a Python integer (\<open>// 2\<close>) is \<open>int32\<close> again; each sum of two \<open>int32\<close> scalars
  wraps; the floor divisions by 2 cannot overflow.
\<close>

definition face_position_int32 :: "box \<Rightarrow> box list \<Rightarrow> int \<times> int" where
  "face_position_int32 face eyes =
     (case face of (fx, fy, fw, fh) \<Rightarrow>
        if length eyes \<ge> 2 then
          (case hd (eyes_sorted eyes) of (lx, ly, lw, lh) \<Rightarrow>
           case last (eyes_sorted eyes) of (rx, ry, rw, rh) \<Rightarrow>
             (wrap32 (wrap32 (wrap32 (lx + lw div 2) + rx) + rw div 2) div 2,
              wrap32 (wrap32 (wrap32 (ly + lh div 2) + ry) + rh div 2) div 2))
        else (wrap32 (fx + fw div 2), wrap32 (fy + fh div 2)))"

text \<open>
  Lines 77-118 with \<open>face_x\<close> and \<open>face_y\<close> of type \<open>int32\<close> and the image's width
  and height Python integers (from \<open>image.shape\<close>). The four window bounds of lines
  87-90 are \<open>int32\<close> and wrap. After the clamp of lines 94-110 a bound is a Python
  integer (\<open>0\<close>, \<open>512\<close>, \<open>w\<close>, \<open>w - 512\<close>) when a branch was taken and the \<open>int32\<close>
  it was when none was; the flag of each axis records which, and the sums of lines 115
  and 116 wrap in the second case only.
\<close>

definition crop_bounds_int32 :: "int \<Rightarrow> int \<Rightarrow> int \<Rightarrow> int \<Rightarrow> region" where
  "crop_bounds_int32 w h face_x face_y =
     (let target_x = 256;
          target_y = 170;
          crop_left = wrap32 (face_x - target_x);
          crop_top = wrap32 (face_y - target_y);
          crop_right = wrap32 (crop_left + 512);
          crop_bottom = wrap32 (crop_top + 512);
          (crop_left, crop_right, left_is_int32) =
             (if crop_left < 0 then (0, 512, False)
              else if crop_right > w then (w - 512, w, False)
              else (crop_left, crop_right, True));
          (crop_top, crop_bottom, top_is_int32) =
             (if crop_top < 0 then (0, 512, False)
              else if crop_bottom > h then (h - 512, h, False)
              else (crop_top, crop_bottom, True));
          crop_left = max 0 crop_left;
          crop_top = max 0 crop_top;
          crop_right =
             min w (if left_is_int32 then wrap32 (crop_left + 512) else crop_left + 512);
          crop_bottom =
             min h (if top_is_int32 then wrap32 (crop_top + 512) else crop_top + 512)
      in (crop_left, crop_top, crop_right, crop_bottom))"

definition calculate_crop_region_int32 :: "int \<times> int \<Rightarrow> box \<Rightarrow> box list \<Rightarrow> region" where
  "calculate_crop_region_int32 shape face eyes =
     (case shape of (h, w) \<Rightarrow>
      case face_position_int32 face eyes of (face_x, face_y) \<Rightarrow>
        crop_bounds_int32 w h face_x face_y)"

text \<open>
  A box whose four components lie between 0 and \<open>2^29\<close>, as every box inside a
  decoded image does.
\<close>

definition box_in_range :: "box \<Rightarrow> bool" where
  "box_in_range bx =
     (case bx of (x, y, w, h) \<Rightarrow>
        0 \<le> x \<and> x \<le> 536870912 \<and> 0 \<le> y \<and> y \<le> 536870912
        \<and> 0 \<le> w \<and> w \<le> 536870912 \<and> 0 \<le> h \<and> h \<le> 536870912)"

section \<open>Images, the OpenCV calls and the output folder\<close>

text \<open>
  Python exceptions. \<open>Error c\<close> is an instance of a class \<open>c\<close> derived from
  \<open>Exception\<close> (\<open>cv2.error\<close>, \<open>OSError\<close>, \<open>ValueError\<close>, ...); \<open>KeyboardInterrupt\<close>
  and \<open>SystemExit\<close> derive from \<open>BaseException\<close> only, so \<open>except Exception\<close> does
  not catch them.
\<close>

datatype py_exception = Error string | KeyboardInterrupt | SystemExit

fun isinstance_Exception :: "py_exception \<Rightarrow> bool" where
  "isinstance_Exception (Error c) = True"
| "isinstance_Exception KeyboardInterrupt = False"
| "isinstance_Exception SystemExit = False"

text \<open>
  An image is known by the way it was made: decoded from a file (a label for its
  content, rows, columns), converted to grey, sliced as \<open>img[r0:r1, c0:c1]\<close>, or resized
  by \<open>cv2.resize(img, (width, height), interpolation)\<close>. Pixel values are not modelled;
  \<open>rows\<close> and \<open>cols\<close> are \<open>img.shape[0]\<close> and \<open>img.shape[1]\<close>.
\<close>

datatype interpolation =
  INTER_NEAREST | INTER_LINEAR | INTER_CUBIC | INTER_AREA | INTER_LANCZOS4

datatype image =
    Decoded string nat nat
  | Gray image
  | Slice image int int int int
  | Resized image nat nat interpolation

text \<open>
  A slice \<open>[start:stop]\<close> of an axis of length \<open>n\<close>, as Python and numpy compute it:
  a negative bound counts from the end, both bounds are clipped to \<open>0 .. n\<close>, and the
  slice is empty when the bounds cross.
\<close>

definition slice_bound :: "nat \<Rightarrow> int \<Rightarrow> int" where
  "slice_bound n i =
     (let j = (if i < 0 then i + int n else i)
      in if j < 0 then 0 else if j > int n then int n else j)"

definition slice_len :: "nat \<Rightarrow> int \<Rightarrow> int \<Rightarrow> nat" where
  "slice_len n start stop = nat (slice_bound n stop - slice_bound n start)"

fun rows :: "image \<Rightarrow> nat" and cols :: "image \<Rightarrow> nat" where
  "rows (Decoded label r c) = r"
| "rows (Gray img) = rows img"
| "rows (Slice img r0 r1 c0 c1) = slice_len (rows img) r0 r1"
| "rows (Resized img width height interp) = height"
| "cols (Decoded label r c) = c"
| "cols (Gray img) = cols img"
| "cols (Slice img r0 r1 c0 c1) = slice_len (cols img) c0 c1"
| "cols (Resized img width height interp) = width"

text \<open>
  A \<open>Path\<close> is its parent folder and its final component, \<open>path.name\<close>.
\<close>

record py_path =
  parent :: string
  name :: string

text \<open>
  An entry of a folder as \<open>iterdir\<close> yields it: its path, the value of \<open>is_file()\<close>,
  and the value of \<open>suffix.lower()\<close>, both computed by \<open>pathlib\<close>.
\<close>

record dir_entry =
  entry_path :: py_path
  is_file :: bool
  suffix_lower :: string

text \<open>
  What the program prints: one constructor for each \<open>print\<close> of the source, with the
  values its f-string interpolates. The first four are the prints of \<open>process_image\<close>
  (lines 126, 133, 152 and 156), the others those of \<open>process_folder\<close>.
\<close>

datatype message =
    Could_not_read py_path
  | No_face_detected py_path
  | Processed string
  | Error_processing py_path py_exception
  | No_images_found
  | Supported_formats
  | Found_images nat
  | Output_folder_ready string
  | Processing_complete
  | Successfully_processed nat
  | Failed_to_process nat

text \<open>
  The name of a file or folder that a message shows, empty when it shows none.
\<close>

fun shown_name :: "message \<Rightarrow> string" where
  "shown_name (Could_not_read p) = name p"
| "shown_name (No_face_detected p) = name p"
| "shown_name (Processed n) = n"
| "shown_name (Error_processing p x) = name p"
| "shown_name (Output_folder_ready d) = d"
| "shown_name m = []"

text \<open>
  What the code asks of OpenCV, of the file system and of the console: each call
  returns or raises. \<open>print\<close> raises when the standard output cannot take the text
  (\<open>UnicodeEncodeError\<close> for a text it cannot encode, \<open>OSError\<close> for a closed pipe).
  \<open>imread\<close> returns \<open>None\<close> for a file it cannot decode; \<open>imwrite\<close> returns whether
  the file was written; the two cascades return candidate boxes; \<open>cvtColor\<close>,
  \<open>resize\<close> and \<open>mkdir\<close> have a result fixed by their arguments when they do not
  raise; \<open>iterdir\<close> lists a folder.
\<close>

record env =
  imread :: "py_path \<Rightarrow> py_exception + image option"
  cvtColor_raises :: "image \<Rightarrow> py_exception option"
  face_detectMultiScale :: "image \<Rightarrow> py_exception + box list"
  eye_detectMultiScale :: "image \<Rightarrow> py_exception + box list"
  resize_raises :: "image \<Rightarrow> py_exception option"
  imwrite :: "py_path \<Rightarrow> image \<Rightarrow> py_exception + bool"
  iterdir :: "string \<Rightarrow> py_exception + dir_entry list"
  mkdir_raises :: "string \<Rightarrow> py_exception option"
  print_raises :: "message \<Rightarrow> py_exception option"

definition cvtColor_BGR2GRAY :: "env \<Rightarrow> image \<Rightarrow> py_exception + image" where
  "cvtColor_BGR2GRAY e img =
     (case cvtColor_raises e img of Some x \<Rightarrow> Inl x | None \<Rightarrow> Inr (Gray img))"

definition cv2_resize ::
    "env \<Rightarrow> image \<Rightarrow> nat \<times> nat \<Rightarrow> interpolation \<Rightarrow> py_exception + image" where
  "cv2_resize e src dsize interp =
     (case resize_raises e src of
        Some x \<Rightarrow> Inl x
      | None \<Rightarrow> (case dsize of (width, height) \<Rightarrow> Inr (Resized src width height interp)))"

text \<open>
  The files written into the output folder so far, oldest first.
\<close>

type_synonym world = "(py_path \<times> image) list"

text \<open>
  Python's \<open>max(xs, key=f)\<close>: the first element of greatest key; \<open>ValueError\<close> on an
  empty sequence.
\<close>

primrec max_from :: "('a \<Rightarrow> int) \<Rightarrow> 'a \<Rightarrow> 'a list \<Rightarrow> 'a" where
  "max_from key best [] = best"
| "max_from key best (x # xs) = max_from key (if key best < key x then x else best) xs"

definition py_max :: "('a \<Rightarrow> int) \<Rightarrow> 'a list \<Rightarrow> py_exception + 'a" where
  "py_max key xs =
     (case xs of [] \<Rightarrow> Inl (Error ''ValueError'') | x # rest \<Rightarrow> Inr (max_from key x rest))"

section \<open>\<open>get_image_files\<close>\<close>

definition supported_formats :: "string set" where
  "supported_formats = {''.jpg'', ''.jpeg'', ''.png'', ''.bmp'', ''.tiff'', ''.tif'', ''.webp''}"

definition get_image_files :: "env \<Rightarrow> string \<Rightarrow> py_exception + py_path list" where
  "get_image_files e folder_path =
     (case iterdir e folder_path of
        Inl x \<Rightarrow> Inl x
      | Inr entries \<Rightarrow>
          Inr (map entry_path
                 (filter (\<lambda>d. is_file d \<and> suffix_lower d \<in> supported_formats) entries)))"

section \<open>\<open>detect_face_and_eyes\<close>\<close>

text \<open>
  The source returns the pair \<open>(None, None)\<close> or \<open>(face, eyes_full)\<close> and its caller
  tests \<open>face is None\<close>: an optional pair here. The key of \<open>max\<close> is
  \<open>f[2] * f[3]\<close>; the region of interest is \<open>gray[y:y+h, x:x+w]\<close>.
\<close>

definition detect_face_and_eyes ::
    "env \<Rightarrow> image \<Rightarrow> py_exception + (box \<times> box list) option" where
  "detect_face_and_eyes e img =
     (case cvtColor_BGR2GRAY e img of
        Inl x \<Rightarrow> Inl x
      | Inr gray \<Rightarrow>
     (case face_detectMultiScale e gray of
        Inl x \<Rightarrow> Inl x
      | Inr faces \<Rightarrow>
          if length faces = 0 then Inr None
          else
     (case py_max (\<lambda>(fx, fy, fw, fh). fw * fh) faces of
        Inl x \<Rightarrow> Inl x
      | Inr face \<Rightarrow>
     (case face of (x, y, w, h) \<Rightarrow>
     (case eye_detectMultiScale e (Slice gray y (y + h) x (x + w)) of
        Inl x' \<Rightarrow> Inl x'
      | Inr eyes \<Rightarrow>
          Inr (Some (face, map (\<lambda>(ex, ey, ew, eh). (x + ex, y + ey, ew, eh)) eyes)))))))"

section \<open>\<open>process_image\<close> and \<open>process_folder\<close>\<close>

text \<open>
  Lines 139-146 of \<open>process_image\<close>: the slice \<open>image[top:bottom, left:right]\<close>, resized
  to 512x512 with \<open>INTER_LANCZOS4\<close> when one of its two extents is not 512. The four
  bounds carry the prefix \<open>crop_\<close> here.
\<close>

definition crop_resize_step :: "env \<Rightarrow> image \<Rightarrow> region \<Rightarrow> py_exception + image" where
  "crop_resize_step e img reg =
     (case reg of (crop_left, crop_top, crop_right, crop_bottom) \<Rightarrow>
        let cropped = Slice img crop_top crop_bottom crop_left crop_right
        in if rows cropped \<noteq> 512 \<or> cols cropped \<noteq> 512
           then cv2_resize e cropped (512, 512) INTER_LANCZOS4
           else Inr cropped)"

text \<open>
  The body of the \<open>try\<close> block of \<open>process_image\<close>: its result is the returned
  boolean or the exception that left the block, together with the output folder's
  content. Each \<open>print\<close> is a call that can raise like any other. The value \<open>imwrite\<close>
  returns is not looked at by the source. The boxes are \<open>int32\<close>, so the region is
  computed by \<open>calculate_crop_region_int32\<close>.
\<close>

definition process_image_body ::
    "env \<Rightarrow> py_path \<Rightarrow> string \<Rightarrow> world \<Rightarrow> (py_exception + bool) \<times> world" where
  "process_image_body e image_path output_folder world =
     (case imread e image_path of
        Inl x \<Rightarrow> (Inl x, world)
      | Inr None \<Rightarrow>
          (case print_raises e (Could_not_read image_path) of
             Some x \<Rightarrow> (Inl x, world)
           | None \<Rightarrow> (Inr False, world))
      | Inr (Some img) \<Rightarrow>
     (case detect_face_and_eyes e img of
        Inl x \<Rightarrow> (Inl x, world)
      | Inr None \<Rightarrow>
          (case print_raises e (No_face_detected image_path) of
             Some x \<Rightarrow> (Inl x, world)
           | None \<Rightarrow> (Inr False, world))
      | Inr (Some (face, eyes)) \<Rightarrow>
     (case crop_resize_step e img
             (calculate_crop_region_int32 (int (rows img), int (cols img)) face eyes) of
        Inl x \<Rightarrow> (Inl x, world)
      | Inr final_image \<Rightarrow>
          let output_path = \<lparr>parent = output_folder, name = ''processed_'' @ name image_path\<rparr>
          in (case imwrite e output_path final_image of
                Inl x \<Rightarrow> (Inl x, world)
              | Inr written \<Rightarrow>
                  let world' = (if written then world @ [(output_path, final_image)] else world)
                  in (case print_raises e (Processed (name image_path)) of
                        Some x \<Rightarrow> (Inl x, world')
                      | None \<Rightarrow> (Inr True, world'))))))"

text \<open>
  \<open>process_image\<close>: the \<open>try\<close> block with its handler \<open>except Exception as e\<close>, which
  prints \<open>Error processing ...\<close> and returns \<open>False\<close>. The handler's \<open>print\<close> stands
  outside every \<open>try\<close>: an exception it raises leaves \<open>process_image\<close>. An exception of
  the body that is not an \<open>Exception\<close> passes through.
\<close>

definition process_image ::
    "env \<Rightarrow> py_path \<Rightarrow> string \<Rightarrow> world \<Rightarrow> (py_exception + bool) \<times> world" where
  "process_image e image_path output_folder world =
     (case process_image_body e image_path output_folder world of
        (Inl x, world') \<Rightarrow>
          if isinstance_Exception x
          then (case print_raises e (Error_processing image_path x) of
                  Some y \<Rightarrow> (Inl y, world')
                | None \<Rightarrow> (Inr False, world'))
          else (Inl x, world')
      | (Inr b, world') \<Rightarrow> (Inr b, world'))"

text \<open>
  The \<open>for\<close> loop of \<open>process_folder\<close> (lines 177-184) with its two counters. The
  call of \<open>process_image\<close> stands in no \<open>try\<close>: an exception it raises ends the loop.
\<close>

fun process_files ::
    "env \<Rightarrow> py_path list \<Rightarrow> string \<Rightarrow> nat \<times> nat \<Rightarrow> world
      \<Rightarrow> (py_exception + nat \<times> nat) \<times> world" where
  "process_files e [] output_folder (successful, failed) world =
     (Inr (successful, failed), world)"
| "process_files e (image_file # rest) output_folder (successful, failed) world =
     (case process_image e image_file output_folder world of
        (Inl x, world') \<Rightarrow> (Inl x, world')
      | (Inr b, world') \<Rightarrow>
          if b then process_files e rest output_folder (successful + 1, failed) world'
          else process_files e rest output_folder (successful, failed + 1) world')"

text \<open>
  The summary that \<open>process_folder\<close> prints after the loop (lines 186-189): it raises
  what the first failing \<open>print\<close> raises.
\<close>

definition print_summary :: "env \<Rightarrow> nat \<Rightarrow> nat \<Rightarrow> py_exception option" where
  "print_summary e successful failed =
     (case print_raises e Processing_complete of
        Some x \<Rightarrow> Some x
      | None \<Rightarrow>
     (case print_raises e (Successfully_processed successful) of
        Some x \<Rightarrow> Some x
      | None \<Rightarrow>
          if failed > 0 then print_raises e (Failed_to_process failed) else None))"

text \<open>
  \<open>process_folder\<close>: the discovery of the inputs, the early return when there is none,
  \<open>mkdir\<close>, the loop, the summary and the returned \<open>successful > 0\<close>. No call of it
  stands in a \<open>try\<close>.
\<close>

definition process_folder ::
    "env \<Rightarrow> string \<Rightarrow> string \<Rightarrow> world \<Rightarrow> (py_exception + bool) \<times> world" where
  "process_folder e input_folder output_folder world =
     (case get_image_files e input_folder of
        Inl x \<Rightarrow> (Inl x, world)
      | Inr image_files \<Rightarrow>
          if image_files = [] then
            (case print_raises e No_images_found of
               Some x \<Rightarrow> (Inl x, world)
             | None \<Rightarrow>
            (case print_raises e Supported_formats of
               Some x \<Rightarrow> (Inl x, world)
             | None \<Rightarrow> (Inr False, world)))
          else
            (case print_raises e (Found_images (length image_files)) of
               Some x \<Rightarrow> (Inl x, world)
             | None \<Rightarrow>
            (case mkdir_raises e output_folder of
               Some x \<Rightarrow> (Inl x, world)
             | None \<Rightarrow>
            (case print_raises e (Output_folder_ready output_folder) of
               Some x \<Rightarrow> (Inl x, world)
             | None \<Rightarrow>
            (case process_files e image_files output_folder (0, 0) world of
               (Inl x, world') \<Rightarrow> (Inl x, world')
             | (Inr (successful, failed), world') \<Rightarrow>
                 (case print_summary e successful failed of
                    Some x \<Rightarrow> (Inl x, world')
                  | None \<Rightarrow> (Inr (successful > 0), world')))))))"

text \<open>
  The operations that the body of \<open>process_image\<close> calls raise errors only: every
  exception they raise is an instance of \<open>Exception\<close>.
\<close>

definition raises_only_Exception :: "env \<Rightarrow> bool" where
  "raises_only_Exception e \<longleftrightarrow>
     (\<forall>p x. imread e p = Inl x \<longrightarrow> isinstance_Exception x)
     \<and> (\<forall>i x. cvtColor_raises e i = Some x \<longrightarrow> isinstance_Exception x)
     \<and> (\<forall>i x. face_detectMultiScale e i = Inl x \<longrightarrow> isinstance_Exception x)
     \<and> (\<forall>i x. eye_detectMultiScale e i = Inl x \<longrightarrow> isinstance_Exception x)
     \<and> (\<forall>i x. resize_raises e i = Some x \<longrightarrow> isinstance_Exception x)
     \<and> (\<forall>p i x. imwrite e p i = Inl x \<longrightarrow> isinstance_Exception x)"

text \<open>
  A standard output that takes every text.
\<close>

definition print_never_raises :: "env \<Rightarrow> bool" where
  "print_never_raises e \<longleftrightarrow> (\<forall>m. print_raises e m = None)"

section \<open>Two worked environments\<close>

text \<open>
  An environment for the worked examples: \<open>3.jpg\<close> cannot be decoded, \<open>4.jpg\<close> shows no
  face, \<open>2.jpg\<close> and \<open>9.jpg\<close> are smaller than 512 pixels, and one call raises
  \<open>cv2.error\<close> for each of \<open>6.jpg\<close> (the write), \<open>7.jpg\<close> (the read), \<open>8.jpg\<close> (the face
  cascade) and \<open>9.jpg\<close> (the resize). Every other file is a 800x600 picture with two
  face candidates and two eyes. The folder \<open>in\<close> holds five pictures, a text file and
  a sub-folder; the folder \<open>mixed\<close> holds three pictures. The standard output takes
  every text.
\<close>

definition demo_env :: env where
  "demo_env =
     \<lparr>imread = (\<lambda>p. if name p = ''3.jpg'' then Inr None
                     else if name p = ''7.jpg'' then Inl (Error ''cv2.error'')
                     else if name p = ''2.jpg'' \<or> name p = ''9.jpg''
                       then Inr (Some (Decoded (name p) 300 400))
                     else Inr (Some (Decoded (name p) 600 800))),
      cvtColor_raises = (\<lambda>i. None),
      face_detectMultiScale = (\<lambda>g. if g = Gray (Decoded ''4.jpg'' 600 800) then Inr []
                     else if g = Gray (Decoded ''8.jpg'' 600 800) then Inl (Error ''cv2.error'')
                     else Inr [(10, 10, 20, 20), (300, 200, 100, 100)]),
      eye_detectMultiScale = (\<lambda>roi. Inr [(60, 30, 20, 20), (20, 30, 20, 20)]),
      resize_raises = (\<lambda>i. if i = Slice (Decoded ''9.jpg'' 300 400) 0 300 0 400
                     then Some (Error ''cv2.error'') else None),
      imwrite = (\<lambda>p i. if name p = ''processed_6.jpg'' then Inl (Error ''cv2.error'')
                     else Inr True),
      iterdir = (\<lambda>d. if d = ''in'' then Inr
                     [\<lparr>entry_path = \<lparr>parent = ''in'', name = ''1.jpg''\<rparr>,
                        is_file = True, suffix_lower = ''.jpg''\<rparr>,
                      \<lparr>entry_path = \<lparr>parent = ''in'', name = ''2.jpg''\<rparr>,
                        is_file = True, suffix_lower = ''.jpg''\<rparr>,
                      \<lparr>entry_path = \<lparr>parent = ''in'', name = ''notes.txt''\<rparr>,
                        is_file = True, suffix_lower = ''.txt''\<rparr>,
                      \<lparr>entry_path = \<lparr>parent = ''in'', name = ''3.jpg''\<rparr>,
                        is_file = True, suffix_lower = ''.jpg''\<rparr>,
                      \<lparr>entry_path = \<lparr>parent = ''in'', name = ''old.png''\<rparr>,
                        is_file = False, suffix_lower = ''.png''\<rparr>,
                      \<lparr>entry_path = \<lparr>parent = ''in'', name = ''4.jpg''\<rparr>,
                        is_file = True, suffix_lower = ''.jpg''\<rparr>,
                      \<lparr>entry_path = \<lparr>parent = ''in'', name = ''5.jpg''\<rparr>,
                        is_file = True, suffix_lower = ''.jpg''\<rparr>]
                   else if d = ''mixed'' then Inr
                     [\<lparr>entry_path = \<lparr>parent = ''mixed'', name = ''3.jpg''\<rparr>,
                        is_file = True, suffix_lower = ''.jpg''\<rparr>,
                      \<lparr>entry_path = \<lparr>parent = ''mixed'', name = ''1.jpg''\<rparr>,
                        is_file = True, suffix_lower = ''.jpg''\<rparr>,
                      \<lparr>entry_path = \<lparr>parent = ''mixed'', name = ''6.jpg''\<rparr>,
                        is_file = True, suffix_lower = ''.jpg''\<rparr>]
                   else Inl (Error ''FileNotFoundError'')),
      mkdir_raises = (\<lambda>d. None),
      print_raises = (\<lambda>m. None)\<rparr>"

text \<open>
  A file whose name is not UTF-8: the bytes \<open>caf\<close>, \<open>0xE9\<close>, \<open>.jpg\<close> (\<open>caf\<close> and a Latin-1
  e acute). \<open>iterdir\<close> lists it, with the byte kept as a surrogate escape, and its
  suffix is \<open>.jpg\<close>.
\<close>

definition latin1_name :: string where
  "latin1_name = ''caf'' @ [CHR 0xE9] @ ''.jpg''"

text \<open>
  The second environment: the folder \<open>photos\<close> holds that file and then the two good
  pictures \<open>1.jpg\<close> and \<open>5.jpg\<close>; OpenCV cannot read the file; and the standard output
  is strict UTF-8, so that \<open>print\<close> raises \<open>UnicodeEncodeError\<close> for every text that
  shows the name. All else is as in the first environment.
\<close>

definition strict_stdout_env :: env where
  "strict_stdout_env =
     demo_env
       \<lparr>imread := (\<lambda>p. if name p = latin1_name then Inr None else imread demo_env p),
        iterdir := (\<lambda>d. if d = ''photos'' then Inr
                     [\<lparr>entry_path = \<lparr>parent = ''photos'', name = latin1_name\<rparr>,
                        is_file = True, suffix_lower = ''.jpg''\<rparr>,
                      \<lparr>entry_path = \<lparr>parent = ''photos'', name = ''1.jpg''\<rparr>,
                        is_file = True, suffix_lower = ''.jpg''\<rparr>,
                      \<lparr>entry_path = \<lparr>parent = ''photos'', name = ''5.jpg''\<rparr>,
                        is_file = True, suffix_lower = ''.jpg''\<rparr>]
                   else iterdir demo_env d),
        print_raises := (\<lambda>m. if CHR 0xE9 \<in> set (shown_name m)
                     then Some (Error ''UnicodeEncodeError'') else None)\<rparr>"

section \<open>The algorithms in the specification's words\<close>

text \<open>
  \<open>compute_crop_region(anchor, image_dims, target_size, target_anchor)\<close> as the
  specification describes it, steps 1 to 5, with the clamp of steps 2 and 3 as one
  rule applied to each axis.
\<close>

definition spec_axis_clamp :: "int \<Rightarrow> int \<Rightarrow> int \<Rightarrow> int \<Rightarrow> int \<times> int" where
  "spec_axis_clamp target_size extent lo hi =
     (if lo < 0 then (0, target_size)
      else if hi > extent then (extent - target_size, extent)
      else (lo, hi))"

definition spec_compute_crop_region ::
    "int \<times> int \<Rightarrow> int \<times> int \<Rightarrow> int \<Rightarrow> int \<times> int \<Rightarrow> region" where
  "spec_compute_crop_region anchor image_dims target_size target_anchor =
     (let left1 = fst anchor - fst target_anchor;
          top1 = snd anchor - snd target_anchor;
          right1 = left1 + target_size;
          bottom1 = top1 + target_size;
          left2 = fst (spec_axis_clamp target_size (fst image_dims) left1 right1);
          top2 = fst (spec_axis_clamp target_size (snd image_dims) top1 bottom1);
          left3 = max 0 left2;
          top3 = max 0 top2
      in (left3, top3,
          min (fst image_dims) (left3 + target_size),
          min (snd image_dims) (top3 + target_size)))"

text \<open>
  The vocabulary of \<open>compute_anchor_point\<close> in the specification: the centre of a
  box, \<open>(x + width/2, y + height/2)\<close> with integer division, and the midpoint of two
  points, each coordinate integer-averaged.
\<close>

definition spec_box_center :: "box \<Rightarrow> int \<times> int" where
  "spec_box_center b = (case b of (x, y, w, h) \<Rightarrow> (x + w div 2, y + h div 2))"

definition spec_midpoint :: "int \<times> int \<Rightarrow> int \<times> int \<Rightarrow> int \<times> int" where
  "spec_midpoint p q = ((fst p + fst q) div 2, (snd p + snd q) div 2)"

text \<open>
  \<open>process_batch\<close> in the specification's words: \<open>process_one\<close> is invoked for each
  input in the order supplied, whatever the outcome of the ones before; the result is
  the list of outcomes (success or not) and the output folder at the end.
\<close>

fun spec_outcomes :: "env \<Rightarrow> py_path list \<Rightarrow> string \<Rightarrow> world \<Rightarrow> bool list \<times> world" where
  "spec_outcomes e [] output_folder world = ([], world)"
| "spec_outcomes e (p # ps) output_folder world =
     (case process_image e p output_folder world of
        (r, world') \<Rightarrow>
          (case spec_outcomes e ps output_folder world' of
             (bs, world'') \<Rightarrow> ((r = Inr True) # bs, world'')))"

section \<open>Properties of the crop geometry\<close>

lemma crop_bounds_cases:
  "crop_bounds w h ax ay =
     (let l = (if ax - 256 < 0 then 0 else if ax + 256 > w then max 0 (w - 512) else ax - 256);
          t = (if ay - 170 < 0 then 0 else if ay + 342 > h then max 0 (h - 512) else ay - 170)
      in (l, t, min w (l + 512), min h (t + 512)))"
  by (simp add: crop_bounds_def Let_def)

lemma crop_bounds_spec:
  "crop_bounds w h ax ay = spec_compute_crop_region (ax, ay) (w, h) 512 (256, 170)"
  by (simp add: crop_bounds_cases spec_compute_crop_region_def spec_axis_clamp_def Let_def)

lemma crop_bounds_in_image:
  assumes "1 \<le> w" and "1 \<le> h"
    and "crop_bounds w h ax ay = (l, t, r, b)"
  shows "0 \<le> l \<and> l < r \<and> r \<le> w \<and> r - l = min 512 w"
    and "0 \<le> t \<and> t < b \<and> b \<le> h \<and> b - t = min 512 h"
  using assms by (auto simp: crop_bounds_cases Let_def split: if_splits)

text \<open>
  C1. \<open>calculate_crop_region\<close> computes the specification's \<open>compute_crop_region\<close>:
  the unclamped window \<open>left = anchor.x - 256\<close>, \<open>top = anchor.y - 170\<close>,
  \<open>right = left + 512\<close>, \<open>bottom = top + 512\<close>, the per-axis shift, and the final
  safety clamp, for every anchor and every image size. For a 1000x1000 image and the
  anchor (990, 990) the region is (488, 488, 1000, 1000).
\<close>

theorem calculate_crop_region_follows_spec:
  "crop_bounds w h ax ay = spec_compute_crop_region (ax, ay) (w, h) 512 (256, 170)
   \<and> calculate_crop_region (h, w) face eyes =
       spec_compute_crop_region (face_position face eyes) (w, h) 512 (256, 170)
   \<and> crop_bounds 1000 1000 990 990 = (488, 488, 1000, 1000)
   \<and> calculate_crop_region (1000, 1000) (980, 980, 20, 20) [] = (488, 488, 1000, 1000)"
proof (intro conjI)
  show "crop_bounds w h ax ay = spec_compute_crop_region (ax, ay) (w, h) 512 (256, 170)"
    by (rule crop_bounds_spec)
  show "calculate_crop_region (h, w) face eyes =
       spec_compute_crop_region (face_position face eyes) (w, h) 512 (256, 170)"
    by (cases "face_position face eyes") (simp add: calculate_crop_region_def crop_bounds_spec)
  show "crop_bounds 1000 1000 990 990 = (488, 488, 1000, 1000)"
    by (simp add: crop_bounds_cases)
  have "face_position (980, 980, 20, 20) [] = (990, 990)"
    by (simp add: face_position_def)
  then show "calculate_crop_region (1000, 1000) (980, 980, 20, 20) [] = (488, 488, 1000, 1000)"
    by (simp add: calculate_crop_region_def crop_bounds_cases)
qed

text \<open>
  C2. For an image with width and height at least 1 and an anchor inside the image,
  the returned region satisfies \<open>0 \<le> left < right \<le> width\<close> and
  \<open>0 \<le> top < bottom \<le> height\<close>, and its extent on each axis is \<open>min 512\<close> of the
  image's extent: 512 when the image is large enough, the whole image otherwise.
\<close>

theorem crop_region_within_image_of_target_size:
  assumes "1 \<le> w" and "1 \<le> h"
    and "face_position face eyes = (ax, ay)"
    and "0 \<le> ax" and "ax < w" and "0 \<le> ay" and "ay < h"
    and "calculate_crop_region (h, w) face eyes = (l, t, r, b)"
  shows "0 \<le> l \<and> l < r \<and> r \<le> w \<and> 0 \<le> t \<and> t < b \<and> b \<le> h
         \<and> r - l = min 512 w \<and> b - t = min 512 h"
proof -
  from assms(3,8) have cb: "crop_bounds w h ax ay = (l, t, r, b)"
    by (simp add: calculate_crop_region_def)
  from crop_bounds_in_image [OF assms(1,2) cb] show ?thesis by simp
qed

theorem crop_region_within_image_of_target_size_witness:
  "calculate_crop_region (300, 1000) (450, 100, 100, 100) [] = (244, 0, 756, 300)
   \<and> (0::int) \<le> 244 \<and> (244::int) < 756 \<and> (756::int) \<le> 1000
   \<and> (756::int) - 244 = min 512 1000 \<and> (300::int) - 0 = min 512 300"
proof -
  have fp: "face_position (450, 100, 100, 100) [] = (500, 150)"
    by (simp add: face_position_def)
  have cr: "calculate_crop_region (300, 1000) (450, 100, 100, 100) [] = (244, 0, 756, 300)"
    by (simp add: calculate_crop_region_def crop_bounds_def face_position_def Let_def)
  from crop_region_within_image_of_target_size [of 1000 300 "(450, 100, 100, 100)" "[]"
      500 150 244 0 756 300, OF _ _ fp _ _ _ _ cr]
  show ?thesis using cr by simp
qed

section \<open>The first and the last element of a stable sort\<close>

lemma hd_insort_key:
  "hd (insort_key f x ys) = (if ys = [] \<or> f x \<le> f (hd ys) then x else hd ys)"
  by (cases ys) auto

lemma last_insort_key:
  "last (insort_key f x ys) = (if \<exists>y\<in>set ys. f x \<le> f y then last ys else x)"
  by (induction ys) (auto simp: insort_is_Cons)

lemma sort_key_Nil_iff: "sort_key f xs = [] \<longleftrightarrow> xs = []"
  by (metis length_sort length_0_conv)

lemma hd_sort_key_Cons:
  "hd (sort_key f (x # xs)) =
     (if xs = [] \<or> f x \<le> f (hd (sort_key f xs)) then x else hd (sort_key f xs))"
  by (simp add: hd_insort_key sort_key_Nil_iff)

lemma last_sort_key_Cons:
  "last (sort_key f (x # xs)) =
     (if \<exists>y\<in>set xs. f x \<le> f y then last (sort_key f xs) else x)"
  by (simp add: last_insort_key)

lemma hd_sort_key_least:
  "xs \<noteq> [] \<Longrightarrow> hd (sort_key f xs) \<in> set xs \<and> (\<forall>y\<in>set xs. f (hd (sort_key f xs)) \<le> f y)"
proof (induction xs)
  case Nil
  then show ?case by simp
next
  case (Cons x xs)
  show ?case
  proof (cases "xs = []")
    case True
    then show ?thesis by simp
  next
    case False
    with Cons.IH have ih: "hd (sort_key f xs) \<in> set xs" "\<forall>y\<in>set xs. f (hd (sort_key f xs)) \<le> f y"
      by simp_all
    show ?thesis
      unfolding hd_sort_key_Cons using ih False by auto
  qed
qed

lemma last_sort_key_greatest:
  "xs \<noteq> [] \<Longrightarrow> last (sort_key f xs) \<in> set xs \<and> (\<forall>y\<in>set xs. f y \<le> f (last (sort_key f xs)))"
proof (induction xs)
  case Nil
  then show ?case by simp
next
  case (Cons x xs)
  show ?case
  proof (cases "xs = []")
    case True
    then show ?thesis by simp
  next
    case False
    with Cons.IH have ih: "last (sort_key f xs) \<in> set xs" "\<forall>y\<in>set xs. f y \<le> f (last (sort_key f xs))"
      by simp_all
    show ?thesis
      unfolding last_sort_key_Cons using ih False by (auto intro: order_trans)
  qed
qed

text \<open>
  Ties: the head of a stable sort is the earliest element of minimal key, its last
  element the latest element of maximal key.
\<close>

lemma hd_sort_key_earliest:
  assumes "\<forall>a\<in>set pre. f l < f a" and "\<forall>a\<in>set post. f l \<le> f a"
  shows "hd (sort_key f (pre @ l # post)) = l"
  using assms
proof (induction pre)
  case Nil
  then show ?case
    using hd_sort_key_least [of post f] by (auto simp: hd_insort_key sort_key_Nil_iff)
next
  case (Cons a pre)
  then have "hd (sort_key f (pre @ l # post)) = l" by simp
  moreover from Cons.prems have "f l < f a" by simp
  ultimately show ?case
    by (auto simp add: hd_sort_key_Cons simp del: sort_key_simps)
qed

lemma last_sort_key_latest:
  assumes "\<forall>a\<in>set pre. f a \<le> f r" and "\<forall>a\<in>set post. f a < f r"
  shows "last (sort_key f (pre @ r # post)) = r"
  using assms
proof (induction pre)
  case Nil
  then show ?case
    by (auto simp: last_insort_key not_le)
next
  case (Cons a pre)
  then have "last (sort_key f (pre @ r # post)) = r" by simp
  moreover from Cons.prems have "f a \<le> f r" by simp
  ultimately show ?case
    by (auto simp add: last_sort_key_Cons simp del: sort_key_simps)
qed

lemma hd_sort_key_remove:
  assumes "\<exists>a\<in>set (A @ B). f a < f e"
  shows "hd (sort_key f (A @ e # B)) = hd (sort_key f (A @ B))"
  using assms
proof (induction A)
  case Nil
  then have "B \<noteq> []" by auto
  with Nil show ?case
    using hd_sort_key_least [of B f] by (auto simp: hd_insort_key sort_key_Nil_iff)
next
  case (Cons a A)
  show ?case
  proof (cases "\<exists>a'\<in>set (A @ B). f a' < f e")
    case True
    then have ne: "A @ B \<noteq> []" by auto
    from True Cons.IH have "hd (sort_key f (A @ e # B)) = hd (sort_key f (A @ B))" by simp
    then show ?thesis
      using ne by (auto simp add: hd_sort_key_Cons simp del: sort_key_simps)
  next
    case False
    with Cons.prems have ae: "f a < f e" by auto
    have "f a \<le> f y" if "y \<in> set (A @ e # B)" for y
    proof -
      from that False have "f e \<le> f y" by (auto simp: not_less)
      with ae show ?thesis by order
    qed
    then have ge: "\<forall>y\<in>set (A @ e # B). f a \<le> f y" by blast
    have "hd (sort_key f (A @ e # B)) \<in> set (A @ e # B)"
      using hd_sort_key_least [of "A @ e # B" f] by simp
    with ge have 1: "f a \<le> f (hd (sort_key f (A @ e # B)))" by blast
    have 2: "A @ B \<noteq> [] \<Longrightarrow> f a \<le> f (hd (sort_key f (A @ B)))"
      using hd_sort_key_least [of "A @ B" f] ge by auto
    show ?thesis
      using 1 2 by (auto simp add: hd_sort_key_Cons simp del: sort_key_simps)
  qed
qed

lemma last_sort_key_remove:
  assumes "\<exists>b\<in>set (A @ B). f e < f b"
  shows "last (sort_key f (A @ e # B)) = last (sort_key f (A @ B))"
  using assms
proof (induction A)
  case Nil
  then show ?case by (auto simp: last_insort_key intro: less_imp_le)
next
  case (Cons a A)
  show ?case
  proof (cases "\<exists>b\<in>set (A @ B). f e < f b")
    case True
    with Cons.IH have ih: "last (sort_key f (A @ e # B)) = last (sort_key f (A @ B))" by simp
    have "(\<exists>y\<in>set (A @ e # B). f a \<le> f y) \<longleftrightarrow> (\<exists>y\<in>set (A @ B). f a \<le> f y)"
      using True by (auto intro: less_imp_le order_trans)
    then show ?thesis
      using ih by (simp add: last_sort_key_Cons del: sort_key_simps)
  next
    case False
    with Cons.prems have ea: "f e < f a" by auto
    have "\<not> f a \<le> f y" if "y \<in> set (A @ e # B)" for y
    proof -
      from that False have "f y \<le> f e" by (auto simp: not_less)
      with ea have "f y < f a" by order
      then show ?thesis by (simp add: not_le)
    qed
    then have "\<not> (\<exists>y\<in>set (A @ e # B). f a \<le> f y)" "\<not> (\<exists>y\<in>set (A @ B). f a \<le> f y)"
      by auto
    then show ?thesis
      by (simp add: last_sort_key_Cons del: sort_key_simps)
  qed
qed

section \<open>Properties of the anchor point\<close>

lemma face_position_eyes:
  "2 \<le> length eyes \<Longrightarrow>
   face_position face eyes =
     spec_midpoint (spec_box_center (hd (eyes_sorted eyes))) (spec_box_center (last (eyes_sorted eyes)))"
  by (simp add: face_position_def spec_midpoint_def spec_box_center_def add.assoc split: prod.splits)

lemma face_position_no_eyes:
  "length eyes < 2 \<Longrightarrow> face_position face eyes = spec_box_center face"
  by (simp add: face_position_def spec_box_center_def split: prod.splits)

text \<open>
  C3. With two eye boxes or more the anchor is the midpoint (each coordinate
  integer-averaged) of the centres of the left eye and the right eye, which are boxes of
  the list of minimal and of maximal x; each centre is \<open>(x + width div 2, y + height div 2)\<close>.
  With fewer than two eye boxes the anchor is the centre of the face box. The eyes
  (100,100,20,20) and (180,100,20,20) give the anchor (150,110).
\<close>

theorem face_position_is_anchor:
  "(2 \<le> length eyes \<longrightarrow>
      hd (eyes_sorted eyes) \<in> set eyes \<and> last (eyes_sorted eyes) \<in> set eyes
      \<and> (\<forall>e\<in>set eyes. fst (hd (eyes_sorted eyes)) \<le> fst e \<and> fst e \<le> fst (last (eyes_sorted eyes)))
      \<and> face_position face eyes =
          spec_midpoint (spec_box_center (hd (eyes_sorted eyes)))
                        (spec_box_center (last (eyes_sorted eyes))))
   \<and> (length eyes < 2 \<longrightarrow> face_position face eyes = spec_box_center face)
   \<and> face_position face [(100, 100, 20, 20), (180, 100, 20, 20)] = (150, 110)"
proof (intro conjI impI)
  assume len: "2 \<le> length eyes"
  then have ne: "eyes \<noteq> []" by auto
  from hd_sort_key_least [OF ne, of fst] last_sort_key_greatest [OF ne, of fst]
  show "hd (eyes_sorted eyes) \<in> set eyes" and "last (eyes_sorted eyes) \<in> set eyes"
    and "\<forall>e\<in>set eyes. fst (hd (eyes_sorted eyes)) \<le> fst e \<and> fst e \<le> fst (last (eyes_sorted eyes))"
    by (simp_all add: eyes_sorted_def)
  from len show "face_position face eyes =
          spec_midpoint (spec_box_center (hd (eyes_sorted eyes)))
                        (spec_box_center (last (eyes_sorted eyes)))"
    by (rule face_position_eyes)
next
  assume "length eyes < 2"
  then show "face_position face eyes = spec_box_center face"
    by (rule face_position_no_eyes)
next
  show "face_position face [(100, 100, 20, 20), (180, 100, 20, 20)] = (150, 110)"
    by (simp add: face_position_def eyes_sorted_def split: prod.splits)
qed

theorem face_position_is_anchor_witness:
  "face_position (0, 0, 50, 50) [(180, 100, 20, 20), (130, 90, 10, 10), (100, 100, 20, 20)] =
     spec_midpoint (spec_box_center (100, 100, 20, 20)) (spec_box_center (180, 100, 20, 20))
   \<and> face_position (450, 450, 100, 100) [(130, 90, 10, 10)] = spec_box_center (450, 450, 100, 100)
   \<and> spec_box_center (450, 450, 100, 100) = (500, 500)"
proof -
  have s: "eyes_sorted [(180, 100, 20, 20), (130, 90, 10, 10), (100, 100, 20, 20)] =
      [(100, 100, 20, 20), (130, 90, 10, 10), (180, 100, 20, 20)]"
    by (simp add: eyes_sorted_def)
  show ?thesis
    using face_position_is_anchor [of "[(180, 100, 20, 20), (130, 90, 10, 10), (100, 100, 20, 20)]" "(0, 0, 50, 50)"]
      face_position_is_anchor [of "[(130, 90, 10, 10)]" "(450, 450, 100, 100)"]
    by (simp add: s spec_box_center_def)
qed

lemma strictly_inside_obtain:
  fixes f :: "'a \<Rightarrow> int"
  assumes "f e \<noteq> Min (f ` set (A @ e # B))" and "f e \<noteq> Max (f ` set (A @ e # B))"
  shows "\<exists>a\<in>set (A @ B). f a < f e" and "\<exists>b\<in>set (A @ B). f e < f b"
proof -
  let ?S = "f ` set (A @ e # B)"
  have fin: "finite ?S" and ne: "?S \<noteq> {}" by simp_all
  have "Min ?S \<in> ?S" using fin ne by (rule Min_in)
  then obtain a where a: "a \<in> set (A @ e # B)" "Min ?S = f a" by blast
  have "Min ?S \<le> f e" using fin by (rule Min_le) simp
  with assms(1) a have "f a < f e" by simp
  moreover with a have "a \<in> set (A @ B)" by auto
  ultimately show "\<exists>a\<in>set (A @ B). f a < f e" by blast
  have "Max ?S \<in> ?S" using fin ne by (rule Max_in)
  then obtain b where b: "b \<in> set (A @ e # B)" "Max ?S = f b" by blast
  have "f e \<le> Max ?S" using fin by (rule Max_ge) simp
  with assms(2) b have "f e < f b" by simp
  moreover with b have "b \<in> set (A @ B)" by auto
  ultimately show "\<exists>b\<in>set (A @ B). f e < f b" by blast
qed

text \<open>
  C8. With two eye boxes or more the anchor depends only on the box of minimal x and
  the box of maximal x: removing a box whose x is neither the minimum nor the maximum of
  the list leaves at least two boxes and the same anchor; two lists with the same left
  and right eye have the same anchor; and the face box passed alongside plays no role.
\<close>

theorem face_position_extremes_only:
  "(fst e \<noteq> Min (fst ` set (A @ e # B)) \<and> fst e \<noteq> Max (fst ` set (A @ e # B)) \<longrightarrow>
      2 \<le> length (A @ B) \<and> face_position face (A @ e # B) = face_position face (A @ B))
   \<and> (2 \<le> length eyes \<and> 2 \<le> length eyes'
        \<and> hd (eyes_sorted eyes) = hd (eyes_sorted eyes')
        \<and> last (eyes_sorted eyes) = last (eyes_sorted eyes') \<longrightarrow>
        face_position face eyes = face_position face' eyes')
   \<and> (2 \<le> length eyes \<longrightarrow> face_position face eyes = face_position face' eyes)"
proof (intro conjI impI)
  assume "fst e \<noteq> Min (fst ` set (A @ e # B)) \<and> fst e \<noteq> Max (fst ` set (A @ e # B))"
  then have lo: "\<exists>a\<in>set (A @ B). fst a < fst e" and hi: "\<exists>b\<in>set (A @ B). fst e < fst b"
    using strictly_inside_obtain [of fst e A B] by simp_all
  from lo hi obtain a b where ab: "a \<in> set (A @ B)" "b \<in> set (A @ B)" "fst a < fst e" "fst e < fst b"
    by blast
  then have "a \<noteq> b" by auto
  with ab have "card {a, b} \<le> card (set (A @ B))"
    by (intro card_mono) auto
  also have "\<dots> \<le> length (A @ B)" by (rule card_length)
  finally show len: "2 \<le> length (A @ B)" using \<open>a \<noteq> b\<close> by simp
  then have len': "2 \<le> length (A @ e # B)" by simp
  have "hd (eyes_sorted (A @ e # B)) = hd (eyes_sorted (A @ B))"
    unfolding eyes_sorted_def using lo by (rule hd_sort_key_remove)
  moreover have "last (eyes_sorted (A @ e # B)) = last (eyes_sorted (A @ B))"
    unfolding eyes_sorted_def using hi by (rule last_sort_key_remove)
  ultimately show "face_position face (A @ e # B) = face_position face (A @ B)"
    by (simp only: face_position_eyes [OF len] face_position_eyes [OF len'])
next
  assume "2 \<le> length eyes \<and> 2 \<le> length eyes'
        \<and> hd (eyes_sorted eyes) = hd (eyes_sorted eyes')
        \<and> last (eyes_sorted eyes) = last (eyes_sorted eyes')"
  then show "face_position face eyes = face_position face' eyes'"
    by (simp add: face_position_eyes)
next
  assume "2 \<le> length eyes"
  then show "face_position face eyes = face_position face' eyes"
    by (simp add: face_position_eyes)
qed

theorem face_position_extremes_only_witness:
  "face_position (0, 0, 50, 50) [(180, 100, 20, 20), (130, 90, 10, 10), (100, 100, 20, 20)] =
     face_position (0, 0, 50, 50) [(180, 100, 20, 20), (100, 100, 20, 20)]
   \<and> face_position (0, 0, 50, 50) [(180, 100, 20, 20), (100, 100, 20, 20)] =
     face_position (7, 7, 7, 7) [(100, 100, 20, 20), (150, 0, 1, 1), (180, 100, 20, 20)]
   \<and> face_position (0, 0, 50, 50) [(180, 100, 20, 20), (100, 100, 20, 20)] =
     face_position (7, 7, 7, 7) [(180, 100, 20, 20), (100, 100, 20, 20)]"
proof -
  have s1: "eyes_sorted [(180, 100, 20, 20), (100, 100, 20, 20)] =
      [(100, 100, 20, 20), (180, 100, 20, 20)]"
    by (simp add: eyes_sorted_def)
  have s2: "eyes_sorted [(100, 100, 20, 20), (150, 0, 1, 1), (180, 100, 20, 20)] =
      [(100, 100, 20, 20), (150, 0, 1, 1), (180, 100, 20, 20)]"
    by (simp add: eyes_sorted_def)
  show ?thesis
    using face_position_extremes_only [where e = "(130, 90, 10, 10)" and A = "[(180, 100, 20, 20)]"
        and B = "[(100, 100, 20, 20)]" and eyes = "[(180, 100, 20, 20), (100, 100, 20, 20)]"
        and eyes' = "[(100, 100, 20, 20), (150, 0, 1, 1), (180, 100, 20, 20)]"
        and face = "(0, 0, 50, 50)" and face' = "(7, 7, 7, 7)"]
    by (auto simp add: s1 s2)
qed

text \<open>
  C10. Ties are broken by list order: a box of minimal x with only strictly larger x
  before it (the earliest of the minimal ones) is the left eye, a box of maximal x with
  only strictly smaller x after it (the latest of the maximal ones) is the right eye.
  Hence the anchor is not invariant under permutation: there are two lists with the same
  boxes, in different order, and different anchors.
\<close>

theorem eye_ties_by_list_order:
  "((\<forall>a\<in>set pre. fst l < fst a) \<and> (\<forall>a\<in>set post. fst l \<le> fst a) \<longrightarrow>
       hd (eyes_sorted (pre @ l # post)) = l)
   \<and> ((\<forall>a\<in>set pre'. fst a \<le> fst r) \<and> (\<forall>a\<in>set post'. fst a < fst r) \<longrightarrow>
       last (eyes_sorted (pre' @ r # post')) = r)
   \<and> (\<exists>eyes eyes'. mset eyes' = mset eyes \<and> 2 \<le> length eyes
         \<and> face_position face eyes' \<noteq> face_position face eyes)"
proof (intro conjI impI)
  assume "(\<forall>a\<in>set pre. fst l < fst a) \<and> (\<forall>a\<in>set post. fst l \<le> fst a)"
  then show "hd (eyes_sorted (pre @ l # post)) = l"
    unfolding eyes_sorted_def by (intro hd_sort_key_earliest) simp_all
next
  assume "(\<forall>a\<in>set pre'. fst a \<le> fst r) \<and> (\<forall>a\<in>set post'. fst a < fst r)"
  then show "last (eyes_sorted (pre' @ r # post')) = r"
    unfolding eyes_sorted_def by (intro last_sort_key_latest) simp_all
next
  have "mset [(0, 10, 2, 2), (0, 0, 2, 2), (10, 0, 2, 2)] =
        mset [(0, 0, 2, 2), (0, 10, 2, 2), (10::int, 0::int, 2::int, 2::int)]"
    by simp
  moreover have "face_position face [(0, 10, 2, 2), (0, 0, 2, 2), (10, 0, 2, 2)] = (6, 6)"
    by (simp add: face_position_def eyes_sorted_def split: prod.splits)
  moreover have "face_position face [(0, 0, 2, 2), (0, 10, 2, 2), (10, 0, 2, 2)] = (6, 1)"
    by (simp add: face_position_def eyes_sorted_def split: prod.splits)
  ultimately show "\<exists>eyes eyes'. mset eyes' = mset eyes \<and> 2 \<le> length eyes
         \<and> face_position face eyes' \<noteq> face_position face eyes"
    by (intro exI [of _ "[(0, 0, 2, 2), (0, 10, 2, 2), (10, 0, 2, 2)]"]
          exI [of _ "[(0, 10, 2, 2), (0, 0, 2, 2), (10, 0, 2, 2)]"]) simp
qed

theorem eye_ties_by_list_order_witness:
  "hd (eyes_sorted [(5, 0, 2, 2), (0, 10, 2, 2), (0, 0, 2, 2), (10, 0, 2, 2)]) = (0, 10, 2, 2)
   \<and> last (eyes_sorted [(10, 3, 2, 2), (0, 10, 2, 2), (10, 0, 2, 2), (5, 0, 2, 2)]) = (10, 0, 2, 2)"
  using eye_ties_by_list_order [where pre = "[(5, 0, 2, 2)]" and l = "(0, 10, 2, 2)"
      and post = "[(0, 0, 2, 2), (10, 0, 2, 2)]" and pre' = "[(10, 3, 2, 2), (0, 10, 2, 2)]"
      and r = "(10, 0, 2, 2)" and post' = "[(5, 0, 2, 2)]"]
  by simp

section \<open>The slice and the 32-bit arithmetic\<close>

lemma slice_len_inside:
  "0 \<le> a \<Longrightarrow> a \<le> b \<Longrightarrow> b \<le> int n \<Longrightarrow> slice_len n a b = nat (b - a)"
  by (simp add: slice_len_def slice_bound_def Let_def)

lemma crop_bounds_total:
  assumes "1 \<le> w" and "1 \<le> h"
  shows "\<exists>l t r b. crop_bounds w h ax ay = (l, t, r, b)
           \<and> 0 \<le> l \<and> l < r \<and> r \<le> w \<and> 0 \<le> t \<and> t < b \<and> b \<le> h"
proof -
  obtain l t r b where cb: "crop_bounds w h ax ay = (l, t, r, b)"
    by (cases "crop_bounds w h ax ay") auto
  from crop_bounds_in_image [OF assms cb] cb show ?thesis by simp
qed

lemma wrap32_id:
  assumes "- 2147483648 \<le> v" and "v \<le> 2147483647"
  shows "wrap32 v = v"
proof -
  from assms have "0 \<le> v + 2147483648" and "v + 2147483648 < 4294967296" by simp_all
  then have "(v + 2147483648) mod 4294967296 = v + 2147483648"
    by (rule mod_pos_pos_trivial)
  then show ?thesis by (simp add: wrap32_def)
qed

lemma crop_bounds_int32_cases:
  "crop_bounds_int32 w h ax ay =
     (let l0 = wrap32 (ax - 256); r0 = wrap32 (l0 + 512);
          t0 = wrap32 (ay - 170); b0 = wrap32 (t0 + 512);
          l = (if l0 < 0 then 0 else if r0 > w then max 0 (w - 512) else l0);
          t = (if t0 < 0 then 0 else if b0 > h then max 0 (h - 512) else t0)
      in (l, t,
          min w (if l0 < 0 \<or> r0 > w then l + 512 else wrap32 (l + 512)),
          min h (if t0 < 0 \<or> b0 > h then t + 512 else wrap32 (t + 512))))"
  by (simp add: crop_bounds_int32_def Let_def)

lemma crop_bounds_int32_in_range:
  assumes "- 2147483392 \<le> ax" and "ax \<le> 2147483391"
    and "- 2147483478 \<le> ay" and "ay \<le> 2147483305"
  shows "crop_bounds_int32 w h ax ay = crop_bounds w h ax ay"
proof -
  have l0: "wrap32 (ax - 256) = ax - 256" using assms by (intro wrap32_id) simp_all
  have r0: "wrap32 (256 + ax) = 256 + ax" using assms by (intro wrap32_id) simp_all
  have t0: "wrap32 (ay - 170) = ay - 170" using assms by (intro wrap32_id) simp_all
  have b0: "wrap32 (342 + ay) = 342 + ay" using assms by (intro wrap32_id) simp_all
  show ?thesis
    by (simp add: crop_bounds_int32_cases crop_bounds_cases Let_def l0 r0 t0 b0)
qed

lemma face_position_int32_in_range:
  assumes "box_in_range face" and "\<forall>bx\<in>set eyes. box_in_range bx"
  shows "face_position_int32 face eyes = face_position face eyes"
proof (cases "2 \<le> length eyes")
  case False
  obtain fx fy fw fh where f: "face = (fx, fy, fw, fh)" by (cases face) auto
  from assms(1) f have "wrap32 (fx + fw div 2) = fx + fw div 2"
    and "wrap32 (fy + fh div 2) = fy + fh div 2"
    by (intro wrap32_id; simp add: box_in_range_def; linarith)+
  with False f show ?thesis
    by (simp add: face_position_int32_def face_position_def)
next
  case True
  then have ne: "eyes \<noteq> []" by auto
  obtain lx ly lw lh where l: "hd (eyes_sorted eyes) = (lx, ly, lw, lh)"
    by (cases "hd (eyes_sorted eyes)") auto
  obtain rx ry rw rh where r: "last (eyes_sorted eyes) = (rx, ry, rw, rh)"
    by (cases "last (eyes_sorted eyes)") auto
  have "hd (eyes_sorted eyes) \<in> set eyes" and "last (eyes_sorted eyes) \<in> set eyes"
    using hd_sort_key_least [OF ne, of fst] last_sort_key_greatest [OF ne, of fst]
    by (simp_all add: eyes_sorted_def)
  with assms(2) l r have lr: "box_in_range (lx, ly, lw, lh)" "box_in_range (rx, ry, rw, rh)"
    by auto
  have x1: "wrap32 (lx + lw div 2) = lx + lw div 2"
    using lr by (intro wrap32_id; simp add: box_in_range_def; linarith)
  have x2: "wrap32 (lx + lw div 2 + rx) = lx + lw div 2 + rx"
    using lr by (intro wrap32_id; simp add: box_in_range_def; linarith)
  have x3: "wrap32 (lx + lw div 2 + rx + rw div 2) = lx + lw div 2 + rx + rw div 2"
    using lr by (intro wrap32_id; simp add: box_in_range_def; linarith)
  have y1: "wrap32 (ly + lh div 2) = ly + lh div 2"
    using lr by (intro wrap32_id; simp add: box_in_range_def; linarith)
  have y2: "wrap32 (ly + lh div 2 + ry) = ly + lh div 2 + ry"
    using lr by (intro wrap32_id; simp add: box_in_range_def; linarith)
  have y3: "wrap32 (ly + lh div 2 + ry + rh div 2) = ly + lh div 2 + ry + rh div 2"
    using lr by (intro wrap32_id; simp add: box_in_range_def; linarith)
  obtain fx fy fw fh where f: "face = (fx, fy, fw, fh)" by (cases face) auto
  from True show ?thesis
    by (simp add: face_position_int32_def face_position_def f l r x1 x2 x3 y1 y2 y3)
qed

lemma face_position_in_range:
  assumes "box_in_range face" and "\<forall>bx\<in>set eyes. box_in_range bx"
  shows "0 \<le> fst (face_position face eyes) \<and> fst (face_position face eyes) \<le> 805306368
       \<and> 0 \<le> snd (face_position face eyes) \<and> snd (face_position face eyes) \<le> 805306368"
proof (cases "2 \<le> length eyes")
  case False
  obtain fx fy fw fh where f: "face = (fx, fy, fw, fh)" by (cases face) auto
  from assms(1) f False show ?thesis
    by (simp add: box_in_range_def face_position_def) linarith
next
  case True
  then have ne: "eyes \<noteq> []" by auto
  obtain lx ly lw lh where l: "hd (eyes_sorted eyes) = (lx, ly, lw, lh)"
    by (cases "hd (eyes_sorted eyes)") auto
  obtain rx ry rw rh where r: "last (eyes_sorted eyes) = (rx, ry, rw, rh)"
    by (cases "last (eyes_sorted eyes)") auto
  have "hd (eyes_sorted eyes) \<in> set eyes" and "last (eyes_sorted eyes) \<in> set eyes"
    using hd_sort_key_least [OF ne, of fst] last_sort_key_greatest [OF ne, of fst]
    by (simp_all add: eyes_sorted_def)
  with assms(2) l r have lr: "box_in_range (lx, ly, lw, lh)" "box_in_range (rx, ry, rw, rh)"
    by auto
  obtain fx fy fw fh where f: "face = (fx, fy, fw, fh)" by (cases face) auto
  from True lr show ?thesis
    by (simp add: face_position_def f l r box_in_range_def) linarith
qed

text \<open>
  On the boxes inside a decoded image the program, computing in \<open>int32\<close>, returns what
  the definitions in the integers return.
\<close>

lemma calculate_crop_region_int32_in_range:
  assumes "box_in_range face" and "\<forall>bx\<in>set eyes. box_in_range bx"
  shows "calculate_crop_region_int32 shape face eyes = calculate_crop_region shape face eyes"
proof -
  obtain h w where s: "shape = (h, w)" by (cases shape) auto
  obtain ax ay where a: "face_position face eyes = (ax, ay)"
    by (cases "face_position face eyes") auto
  from face_position_in_range [OF assms] a
  have "0 \<le> ax" "ax \<le> 805306368" "0 \<le> ay" "ay \<le> 805306368" by simp_all
  then have "crop_bounds_int32 w h ax ay = crop_bounds w h ax ay"
    by (intro crop_bounds_int32_in_range) simp_all
  then show ?thesis
    by (simp add: calculate_crop_region_int32_def calculate_crop_region_def s a
        face_position_int32_in_range [OF assms])
qed

text \<open>
  C9, as stated, fails on the program's 32-bit integers. For the face box
  (2147483647, 0, 10, 10) in a 300x200 image the centre \<open>fx + fw // 2\<close> wraps, the
  window wraps again, and the region returned has its left bound far right of its right
  bound: it is not inside the image, and the slice it bounds is empty. The same happens
  for the anchor 2147483647 itself.
\<close>

theorem crop_region_wraps_near_int32_limit:
  "calculate_crop_region_int32 (200, 300) (2147483647, 0, 10, 10) [] =
     (2147483396, 0, - 2147483388, 200)
   \<and> \<not> ((2147483396 :: int) < - 2147483388)
   \<and> cols (Slice (Decoded ''a'' 200 300) 0 200 2147483396 (- 2147483388)) = 0
   \<and> crop_bounds_int32 300 200 2147483647 5 = (2147483391, 0, - 2147483393, 200)"
proof (intro conjI)
  have fp: "face_position_int32 (2147483647, 0, 10, 10) [] = (- 2147483644, 5)"
    by (simp add: face_position_int32_def wrap32_def)
  have cb: "crop_bounds_int32 300 200 (- 2147483644) 5 = (2147483396, 0, - 2147483388, 200)"
    by (simp add: crop_bounds_int32_cases wrap32_def)
  show "calculate_crop_region_int32 (200, 300) (2147483647, 0, 10, 10) [] =
     (2147483396, 0, - 2147483388, 200)"
    by (simp add: calculate_crop_region_int32_def fp cb)
  show "\<not> ((2147483396 :: int) < - 2147483388)" by simp
  show "cols (Slice (Decoded ''a'' 200 300) 0 200 2147483396 (- 2147483388)) = 0"
    by (simp add: slice_len_def slice_bound_def)
  show "crop_bounds_int32 300 200 2147483647 5 = (2147483391, 0, - 2147483393, 200)"
    by (simp add: crop_bounds_int32_cases wrap32_def)
qed

text \<open>
  C9, amended. For every image of width and height at least 1 and every anchor,
  negative or far outside the image included, whose coordinates keep the window inside
  the 32-bit range (\<open>-2^31 + 256 \<le> x \<le> 2^31 - 257\<close> and \<open>-2^31 + 170 \<le> y \<le> 2^31 - 343\<close>),
  \<open>calculate_crop_region\<close> returns a region with \<open>0 \<le> left < right \<le> width\<close> and
  \<open>0 \<le> top < bottom \<le> height\<close>. Hence the slice \<open>image[top:bottom, left:right]\<close> has
  exactly \<open>bottom - top\<close> rows and \<open>right - left\<close> columns, none clipped away, and is not
  empty: the resize step does not receive an empty image.
\<close>

theorem crop_region_safe_within_int32:
  assumes "1 \<le> w" and "1 \<le> h"
    and "- 2147483392 \<le> ax" and "ax \<le> 2147483391"
    and "- 2147483478 \<le> ay" and "ay \<le> 2147483305"
  shows "(\<exists>l t r b. crop_bounds_int32 w h ax ay = (l, t, r, b)
            \<and> 0 \<le> l \<and> l < r \<and> r \<le> w \<and> 0 \<le> t \<and> t < b \<and> b \<le> h)
       \<and> (rows img = nat h \<and> cols img = nat w \<and> face_position_int32 face eyes = (ax, ay) \<longrightarrow>
            (\<exists>l t r b.
               calculate_crop_region_int32 (int (rows img), int (cols img)) face eyes = (l, t, r, b)
               \<and> 0 \<le> l \<and> l < r \<and> r \<le> w \<and> 0 \<le> t \<and> t < b \<and> b \<le> h
               \<and> rows (Slice img t b l r) = nat (b - t) \<and> 0 < rows (Slice img t b l r)
               \<and> cols (Slice img t b l r) = nat (r - l) \<and> 0 < cols (Slice img t b l r)))"
proof -
  have same: "crop_bounds_int32 w h ax ay = crop_bounds w h ax ay"
    using assms(3-6) by (rule crop_bounds_int32_in_range)
  from crop_bounds_total [OF assms(1,2), of ax ay] obtain l t r b
    where cb: "crop_bounds_int32 w h ax ay = (l, t, r, b)"
      and bd: "0 \<le> l" "l < r" "r \<le> w" "0 \<le> t" "t < b" "b \<le> h"
    unfolding same by blast
  show ?thesis
  proof (intro conjI impI)
    from cb bd
    show "\<exists>l t r b. crop_bounds_int32 w h ax ay = (l, t, r, b)
            \<and> 0 \<le> l \<and> l < r \<and> r \<le> w \<and> 0 \<le> t \<and> t < b \<and> b \<le> h"
      by blast
  next
    assume a: "rows img = nat h \<and> cols img = nat w \<and> face_position_int32 face eyes = (ax, ay)"
    with assms(1,2) have hw: "int (rows img) = h" "int (cols img) = w" by simp_all
    from a have fp: "face_position_int32 face eyes = (ax, ay)" by simp
    have cr: "calculate_crop_region_int32 (int (rows img), int (cols img)) face eyes = (l, t, r, b)"
      unfolding hw by (simp add: calculate_crop_region_int32_def fp cb)
    have r1: "rows (Slice img t b l r) = nat (b - t)"
      using bd hw by (simp add: slice_len_inside)
    have c1: "cols (Slice img t b l r) = nat (r - l)"
      using bd hw by (simp add: slice_len_inside)
    from cr bd r1 c1
    show "\<exists>l t r b.
               calculate_crop_region_int32 (int (rows img), int (cols img)) face eyes = (l, t, r, b)
               \<and> 0 \<le> l \<and> l < r \<and> r \<le> w \<and> 0 \<le> t \<and> t < b \<and> b \<le> h
               \<and> rows (Slice img t b l r) = nat (b - t) \<and> 0 < rows (Slice img t b l r)
               \<and> cols (Slice img t b l r) = nat (r - l) \<and> 0 < cols (Slice img t b l r)"
      by (intro exI [of _ l] exI [of _ t] exI [of _ r] exI [of _ b]) simp
  qed
qed

theorem crop_region_safe_within_int32_witness:
  "crop_bounds_int32 300 200 (- 2147483392) 2147483305 = (0, 0, 300, 200)
   \<and> calculate_crop_region_int32 (200, 300) (- 5000, 70000, 10, 10) [] = (0, 0, 300, 200)
   \<and> rows (Slice (Decoded ''a'' 200 300) 0 200 0 300) = 200
   \<and> cols (Slice (Decoded ''a'' 200 300) 0 200 0 300) = 300"
proof -
  have 1: "crop_bounds_int32 300 200 (- 2147483392) 2147483305 = (0, 0, 300, 200)"
    by (simp add: crop_bounds_int32_cases wrap32_def)
  have fp: "face_position_int32 (- 5000, 70000, 10, 10) [] = (- 4995, 70005)"
    by (simp add: face_position_int32_def wrap32_def)
  have cb: "crop_bounds_int32 300 200 (- 4995) 70005 = (0, 0, 300, 200)"
    by (simp add: crop_bounds_int32_cases wrap32_def)
  have 2: "calculate_crop_region_int32 (200, 300) (- 5000, 70000, 10, 10) [] = (0, 0, 300, 200)"
    by (simp add: calculate_crop_region_int32_def fp cb)
  have sh: "rows (Decoded ''a'' 200 300) = nat 200 \<and> cols (Decoded ''a'' 200 300) = nat 300
      \<and> face_position_int32 (- 5000, 70000, 10, 10) [] = (- 4995, 70005)"
    by (simp add: fp)
  from crop_region_safe_within_int32 [of 300 200 "- 4995" 70005 "Decoded ''a'' 200 300"
      "(- 5000, 70000, 10, 10)" "[]"] sh
  have "\<exists>l t r b.
      calculate_crop_region_int32 (int (rows (Decoded ''a'' 200 300)), int (cols (Decoded ''a'' 200 300)))
        (- 5000, 70000, 10, 10) [] = (l, t, r, b)
      \<and> 0 \<le> l \<and> l < r \<and> r \<le> 300 \<and> 0 \<le> t \<and> t < b \<and> b \<le> 200
      \<and> rows (Slice (Decoded ''a'' 200 300) t b l r) = nat (b - t)
      \<and> 0 < rows (Slice (Decoded ''a'' 200 300) t b l r)
      \<and> cols (Slice (Decoded ''a'' 200 300) t b l r) = nat (r - l)
      \<and> 0 < cols (Slice (Decoded ''a'' 200 300) t b l r)"
    by simp
  then have 3: "rows (Slice (Decoded ''a'' 200 300) 0 200 0 300) = 200"
    and 4: "cols (Slice (Decoded ''a'' 200 300) 0 200 0 300) = 300"
    using 2 by auto
  from 1 2 3 4 show ?thesis by simp
qed

section \<open>The crop and resize step\<close>

lemma Resized_neq: "Resized x w h i \<noteq> x"
  by (induction x) auto

lemma crop_resize_step_shape:
  assumes "crop_resize_step e img reg = Inr final"
  shows "rows final = 512 \<and> cols final = 512"
  using assms
  by (cases reg) (auto simp: crop_resize_step_def cv2_resize_def Let_def
      split: if_splits option.splits)

lemma crop_resize_step_shapeE:
  assumes "crop_resize_step e img reg = Inr final"
  obtains "rows final = 512" and "cols final = 512"
  using crop_resize_step_shape [OF assms] by simp

lemma process_image_body_world:
  assumes "process_image_body e p out world = (res, world')"
  shows "world' = world
         \<or> (\<exists>final. world' = world @ [(\<lparr>parent = out, name = ''processed_'' @ name p\<rparr>, final)]
               \<and> rows final = 512 \<and> cols final = 512)"
  using assms
  by (auto simp: process_image_body_def Let_def
      split: sum.splits option.splits if_splits elim!: crop_resize_step_shapeE)

lemma process_image_keeps_world:
  "snd (process_image e p out world) = snd (process_image_body e p out world)"
  by (cases "process_image_body e p out world")
    (auto simp: process_image_def split: sum.splits option.splits)

lemma process_image_world:
  assumes "process_image e p out world = (res, world')"
  shows "world' = world
         \<or> (\<exists>final. world' = world @ [(\<lparr>parent = out, name = ''processed_'' @ name p\<rparr>, final)]
               \<and> rows final = 512 \<and> cols final = 512)"
proof -
  obtain r0 w0 where b: "process_image_body e p out world = (r0, w0)"
    by (cases "process_image_body e p out world") auto
  from assms b process_image_keeps_world [of e p out world] have "w0 = world'" by simp
  with process_image_body_world [OF b] show ?thesis by simp
qed

text \<open>
  C6. The slice bounded by the crop region is passed on unchanged when it is 512x512,
  and is resized to 512x512 with \<open>INTER_LANCZOS4\<close> when its width or its height is not
  512; so the step's result is the resized slice if and only if one extent differs from
  512, and it is 512x512 in both cases. Every file that \<open>process_image\<close> adds to the
  output folder is a 512x512 image, whatever the size of the source.
\<close>

theorem crop_resize_step_normalizes:
  "(rows (Slice img t b l r) = 512 \<and> cols (Slice img t b l r) = 512 \<longrightarrow>
      crop_resize_step e img (l, t, r, b) = Inr (Slice img t b l r))
   \<and> (rows (Slice img t b l r) \<noteq> 512 \<or> cols (Slice img t b l r) \<noteq> 512 \<longrightarrow>
      crop_resize_step e img (l, t, r, b) =
        cv2_resize e (Slice img t b l r) (512, 512) INTER_LANCZOS4)
   \<and> (crop_resize_step e img (l, t, r, b) = Inr final \<longrightarrow>
        (final = Resized (Slice img t b l r) 512 512 INTER_LANCZOS4
           \<longleftrightarrow> rows (Slice img t b l r) \<noteq> 512 \<or> cols (Slice img t b l r) \<noteq> 512)
        \<and> (final = Slice img t b l r
           \<longleftrightarrow> rows (Slice img t b l r) = 512 \<and> cols (Slice img t b l r) = 512)
        \<and> rows final = 512 \<and> cols final = 512)
   \<and> (process_image e image_path output_folder world = (res, world') \<longrightarrow>
        (\<exists>new. world' = world @ new \<and> (\<forall>(path, out)\<in>set new. rows out = 512 \<and> cols out = 512)))"
proof (intro conjI impI)
  let ?c = "Slice img t b l r"
  show "crop_resize_step e img (l, t, r, b) = Inr ?c"
    if "rows ?c = 512 \<and> cols ?c = 512"
    using that by (simp add: crop_resize_step_def)
  show "crop_resize_step e img (l, t, r, b) = cv2_resize e ?c (512, 512) INTER_LANCZOS4"
    if "rows ?c \<noteq> 512 \<or> cols ?c \<noteq> 512"
    using that by (auto simp: crop_resize_step_def)
  show "(final = Resized ?c 512 512 INTER_LANCZOS4) = (rows ?c \<noteq> 512 \<or> cols ?c \<noteq> 512)"
    if "crop_resize_step e img (l, t, r, b) = Inr final"
    using that Resized_neq [of ?c 512 512 INTER_LANCZOS4]
    by (auto simp: crop_resize_step_def cv2_resize_def Let_def split: if_splits option.splits)
  show "(final = ?c) = (rows ?c = 512 \<and> cols ?c = 512)"
    if "crop_resize_step e img (l, t, r, b) = Inr final"
    using that Resized_neq [of ?c 512 512 INTER_LANCZOS4]
    by (auto simp: crop_resize_step_def cv2_resize_def Let_def split: if_splits option.splits)
  show "rows final = 512" and "cols final = 512"
    if "crop_resize_step e img (l, t, r, b) = Inr final"
    using crop_resize_step_shape [OF that] by simp_all
  show "\<exists>new. world' = world @ new \<and> (\<forall>(path, out)\<in>set new. rows out = 512 \<and> cols out = 512)"
    if "process_image e image_path output_folder world = (res, world')"
  proof -
    from process_image_world [OF that] show ?thesis
    proof
      assume "world' = world"
      then show ?thesis by (intro exI [of _ "[]"]) simp
    next
      assume "\<exists>final. world' = world @ [(\<lparr>parent = output_folder, name = ''processed_'' @ name image_path\<rparr>, final)]
               \<and> rows final = 512 \<and> cols final = 512"
      then obtain final where "world' = world @ [(\<lparr>parent = output_folder, name = ''processed_'' @ name image_path\<rparr>, final)]"
        and "rows final = 512" and "cols final = 512" by blast
      then show ?thesis
        by (intro exI [of _ "[(\<lparr>parent = output_folder, name = ''processed_'' @ name image_path\<rparr>, final)]"]) simp
    qed
  qed
qed

section \<open>Properties of \<open>detect_face_and_eyes\<close>\<close>

lemma max_from_mono: "key best \<le> key (max_from key best xs)"
proof (induction xs arbitrary: best)
  case Nil
  then show ?case by simp
next
  case (Cons x xs)
  have "key best \<le> key (if key best < key x then x else best)" by simp
  also have "\<dots> \<le> key (max_from key (if key best < key x then x else best) xs)"
    by (rule Cons.IH)
  finally show ?case by simp
qed

lemma max_from_in: "max_from key best xs \<in> set (best # xs)"
  by (induction xs arbitrary: best) auto

lemma max_from_greatest: "x \<in> set (best # xs) \<Longrightarrow> key x \<le> key (max_from key best xs)"
proof (induction xs arbitrary: best)
  case Nil
  then show ?case by simp
next
  case (Cons y ys)
  let ?b = "if key best < key y then y else best"
  from Cons.prems consider "x = best" | "x = y" | "x \<in> set ys" by auto
  then show ?case
  proof cases
    case 1
    have "key best \<le> key ?b" by simp
    also have "\<dots> \<le> key (max_from key ?b ys)" by (rule max_from_mono)
    finally show ?thesis using 1 by simp
  next
    case 2
    have "key y \<le> key ?b" by simp
    also have "\<dots> \<le> key (max_from key ?b ys)" by (rule max_from_mono)
    finally show ?thesis using 2 by simp
  next
    case 3
    then have "x \<in> set (?b # ys)" by simp
    then have "key x \<le> key (max_from key ?b ys)" by (rule Cons.IH)
    then show ?thesis by simp
  qed
qed

lemma py_max_greatest:
  assumes "xs \<noteq> []"
  obtains m where "py_max key xs = Inr m" and "m \<in> set xs" and "\<forall>x\<in>set xs. key x \<le> key m"
proof (cases xs)
  case Nil
  with assms show ?thesis by simp
next
  case (Cons y ys)
  show ?thesis
  proof (rule that)
    show "py_max key xs = Inr (max_from key y ys)" by (simp add: py_max_def Cons)
    show "max_from key y ys \<in> set xs" using max_from_in [of key y ys] by (simp add: Cons)
    show "\<forall>x\<in>set xs. key x \<le> key (max_from key y ys)"
      using max_from_greatest [of _ y ys key] by (simp add: Cons)
  qed
qed

lemma detect_no_faces:
  assumes "cvtColor_raises e img = None" and "face_detectMultiScale e (Gray img) = Inr []"
  shows "detect_face_and_eyes e img = Inr None"
  using assms by (simp add: detect_face_and_eyes_def cvtColor_BGR2GRAY_def)

lemma detect_with_faces:
  assumes "cvtColor_raises e img = None" and "face_detectMultiScale e (Gray img) = Inr faces"
    and "py_max (\<lambda>(fx, fy, fw, fh). fw * fh) faces = Inr (x, y, w, h)" and "faces \<noteq> []"
    and "eye_detectMultiScale e (Slice (Gray img) y (y + h) x (x + w)) = Inr eyes"
  shows "detect_face_and_eyes e img =
           Inr (Some ((x, y, w, h), map (\<lambda>(ex, ey, ew, eh). (x + ex, y + ey, ew, eh)) eyes))"
  using assms by (simp add: detect_face_and_eyes_def cvtColor_BGR2GRAY_def)

lemma process_image_no_face:
  assumes "imread e p = Inr (Some img)" and "detect_face_and_eyes e img = Inr None"
  shows "snd (process_image e p out world) = world"
    and "fst (process_image e p out world) \<noteq> Inr True"
    and "print_raises e (No_face_detected p) = None \<Longrightarrow>
           process_image e p out world = (Inr False, world)"
  using assms
  by (auto simp: process_image_def process_image_body_def split: option.splits)

text \<open>
  C7. With at least one face candidate, \<open>detect_face_and_eyes\<close> chooses a candidate of
  greatest area \<open>w * h\<close>, searches the eyes in the slice \<open>gray[y:y+h, x:x+w]\<close> of that
  face only, and returns each eye box moved by the face's \<open>(x, y)\<close>, width and height
  unchanged. With no candidate it returns the no-face result; \<open>process_image\<close> then
  writes no file and does not report a success, and it returns \<open>False\<close> when its
  warning can be printed.
\<close>

theorem detect_face_and_eyes_contract:
  "(cvtColor_raises e img = None \<and> face_detectMultiScale e (Gray img) = Inr faces \<and> faces \<noteq> [] \<longrightarrow>
      (\<exists>x y w h. (x, y, w, h) \<in> set faces
          \<and> (\<forall>(fx, fy, fw, fh)\<in>set faces. fw * fh \<le> w * h)
          \<and> (\<forall>eyes. eye_detectMultiScale e (Slice (Gray img) y (y + h) x (x + w)) = Inr eyes \<longrightarrow>
                detect_face_and_eyes e img =
                  Inr (Some ((x, y, w, h),
                             map (\<lambda>(ex, ey, ew, eh). (x + ex, y + ey, ew, eh)) eyes)))))
   \<and> (cvtColor_raises e img = None \<and> face_detectMultiScale e (Gray img) = Inr [] \<longrightarrow>
        detect_face_and_eyes e img = Inr None
        \<and> (imread e p = Inr (Some img) \<longrightarrow>
             snd (process_image e p out world) = world
             \<and> fst (process_image e p out world) \<noteq> Inr True
             \<and> (print_raises e (No_face_detected p) = None \<longrightarrow>
                  process_image e p out world = (Inr False, world))))"
proof (intro conjI impI)
  assume a: "cvtColor_raises e img = None \<and> face_detectMultiScale e (Gray img) = Inr faces \<and> faces \<noteq> []"
  then have ne: "faces \<noteq> []" by simp
  obtain m where m: "py_max (\<lambda>(fx, fy, fw, fh). fw * fh) faces = Inr m" "m \<in> set faces"
    "\<forall>f\<in>set faces. (\<lambda>(fx, fy, fw, fh). fw * fh) f \<le> (\<lambda>(fx, fy, fw, fh). fw * fh) m"
    using py_max_greatest [OF ne, of "\<lambda>(fx, fy, fw, fh). fw * fh"] by blast
  obtain x y w h where mm: "m = (x, y, w, h)" by (cases m) auto
  have "(x, y, w, h) \<in> set faces" using m(2) mm by simp
  moreover have "\<forall>(fx, fy, fw, fh)\<in>set faces. fw * fh \<le> w * h"
    using m(3) mm by auto
  moreover have "\<forall>eyes. eye_detectMultiScale e (Slice (Gray img) y (y + h) x (x + w)) = Inr eyes \<longrightarrow>
                detect_face_and_eyes e img =
                  Inr (Some ((x, y, w, h),
                             map (\<lambda>(ex, ey, ew, eh). (x + ex, y + ey, ew, eh)) eyes))"
    using a m(1) mm by (auto intro: detect_with_faces)
  ultimately show "\<exists>x y w h. (x, y, w, h) \<in> set faces
          \<and> (\<forall>(fx, fy, fw, fh)\<in>set faces. fw * fh \<le> w * h)
          \<and> (\<forall>eyes. eye_detectMultiScale e (Slice (Gray img) y (y + h) x (x + w)) = Inr eyes \<longrightarrow>
                detect_face_and_eyes e img =
                  Inr (Some ((x, y, w, h),
                             map (\<lambda>(ex, ey, ew, eh). (x + ex, y + ey, ew, eh)) eyes)))"
    by blast
next
  assume a: "cvtColor_raises e img = None \<and> face_detectMultiScale e (Gray img) = Inr []"
  then show d: "detect_face_and_eyes e img = Inr None"
    by (simp add: detect_no_faces)
  assume rd: "imread e p = Inr (Some img)"
  from rd d show "snd (process_image e p out world) = world"
    by (rule process_image_no_face(1))
  from rd d show "fst (process_image e p out world) \<noteq> Inr True"
    by (rule process_image_no_face(2))
  assume "print_raises e (No_face_detected p) = None"
  with rd d show "process_image e p out world = (Inr False, world)"
    by (rule process_image_no_face(3))
qed

section \<open>Runs in the first worked environment\<close>

lemma demo_detect:
  assumes "img \<noteq> Decoded ''4.jpg'' 600 800" and "img \<noteq> Decoded ''8.jpg'' 600 800"
  shows "detect_face_and_eyes demo_env img =
           Inr (Some ((300, 200, 100, 100), [(360, 230, 20, 20), (320, 230, 20, 20)]))"
  using assms
  by (simp add: detect_face_and_eyes_def cvtColor_BGR2GRAY_def demo_env_def py_max_def)

lemma demo_print: "print_raises demo_env m = None"
  by (simp add: demo_env_def)

lemma demo_face_position:
  "face_position_int32 (300, 200, 100, 100) [(360, 230, 20, 20), (320, 230, 20, 20)] = (350, 240)"
  by (simp add: face_position_int32_def eyes_sorted_def wrap32_id)

lemma demo_region_large:
  "calculate_crop_region_int32 (600, 800) (300, 200, 100, 100)
       [(360, 230, 20, 20), (320, 230, 20, 20)]
     = (94, 70, 606, 582)"
  by (simp add: calculate_crop_region_int32_def demo_face_position crop_bounds_int32_def Let_def
      wrap32_id)

lemma demo_region_small:
  "calculate_crop_region_int32 (300, 400) (300, 200, 100, 100)
       [(360, 230, 20, 20), (320, 230, 20, 20)]
     = (0, 0, 400, 300)"
  by (simp add: calculate_crop_region_int32_def demo_face_position crop_bounds_int32_def Let_def
      wrap32_id)

lemma demo_step_large:
  "crop_resize_step demo_env (Decoded n 600 800) (94, 70, 606, 582) =
     Inr (Slice (Decoded n 600 800) 70 582 94 606)"
  by (simp add: crop_resize_step_def slice_len_def slice_bound_def)

lemma demo_step_small:
  "crop_resize_step demo_env (Decoded ''2.jpg'' 300 400) (0, 0, 400, 300) =
     Inr (Resized (Slice (Decoded ''2.jpg'' 300 400) 0 300 0 400) 512 512 INTER_LANCZOS4)"
  by (simp add: crop_resize_step_def slice_len_def slice_bound_def cv2_resize_def demo_env_def)

lemma demo_step_resize_error:
  "crop_resize_step demo_env (Decoded ''9.jpg'' 300 400) (0, 0, 400, 300) =
     Inl (Error ''cv2.error'')"
  by (simp add: crop_resize_step_def slice_len_def slice_bound_def cv2_resize_def demo_env_def)

lemma demo_detect_error:
  "detect_face_and_eyes demo_env (Decoded ''8.jpg'' 600 800) = Inl (Error ''cv2.error'')"
  by (simp add: detect_face_and_eyes_def cvtColor_BGR2GRAY_def demo_env_def)

lemma demo_detect_no_face:
  "detect_face_and_eyes demo_env (Decoded ''4.jpg'' 600 800) = Inr None"
  by (simp add: detect_face_and_eyes_def cvtColor_BGR2GRAY_def demo_env_def)

lemma demo_process_large:
  assumes "name p \<notin> {''2.jpg'', ''3.jpg'', ''4.jpg'', ''6.jpg'', ''7.jpg'', ''8.jpg'', ''9.jpg''}"
  shows "process_image demo_env p out w =
           (Inr True, w @ [(\<lparr>parent = out, name = ''processed_'' @ name p\<rparr>,
                            Slice (Decoded (name p) 600 800) 70 582 94 606)])"
proof -
  have rd: "imread demo_env p = Inr (Some (Decoded (name p) 600 800))"
    using assms by (simp add: demo_env_def)
  have wr: "imwrite demo_env \<lparr>parent = out, name = n\<rparr> i = Inr True"
    if "n \<noteq> ''processed_6.jpg''" for n i
    using that by (simp add: demo_env_def)
  have dt: "detect_face_and_eyes demo_env (Decoded (name p) 600 800) =
           Inr (Some ((300, 200, 100, 100), [(360, 230, 20, 20), (320, 230, 20, 20)]))"
    using assms by (intro demo_detect) simp_all
  show ?thesis
    using assms
    by (simp add: process_image_def process_image_body_def rd dt demo_region_large
        demo_step_large wr demo_print Let_def)
qed

lemma demo_process_small:
  "process_image demo_env \<lparr>parent = d, name = ''2.jpg''\<rparr> out w =
           (Inr True, w @ [(\<lparr>parent = out, name = ''processed_2.jpg''\<rparr>,
              Resized (Slice (Decoded ''2.jpg'' 300 400) 0 300 0 400) 512 512 INTER_LANCZOS4)])"
proof -
  have rd: "imread demo_env \<lparr>parent = d, name = ''2.jpg''\<rparr> = Inr (Some (Decoded ''2.jpg'' 300 400))"
    by (simp add: demo_env_def)
  have wr: "imwrite demo_env \<lparr>parent = out, name = ''processed_2.jpg''\<rparr> i = Inr True" for i
    by (simp add: demo_env_def)
  have dt: "detect_face_and_eyes demo_env (Decoded ''2.jpg'' 300 400) =
           Inr (Some ((300, 200, 100, 100), [(360, 230, 20, 20), (320, 230, 20, 20)]))"
    by (intro demo_detect) simp_all
  show ?thesis
    by (simp add: process_image_def process_image_body_def rd dt demo_region_small
        demo_step_small wr demo_print Let_def)
qed

lemma demo_process_unreadable:
  "process_image demo_env \<lparr>parent = d, name = ''3.jpg''\<rparr> out w = (Inr False, w)"
  by (simp add: process_image_def process_image_body_def demo_env_def)

lemma demo_process_no_face:
  "process_image demo_env \<lparr>parent = d, name = ''4.jpg''\<rparr> out w = (Inr False, w)"
proof -
  have rd: "imread demo_env \<lparr>parent = d, name = ''4.jpg''\<rparr> = Inr (Some (Decoded ''4.jpg'' 600 800))"
    by (simp add: demo_env_def)
  show ?thesis
    by (simp add: process_image_def process_image_body_def rd demo_detect_no_face demo_print)
qed

lemma demo_process_write_error:
  "process_image demo_env \<lparr>parent = d, name = ''6.jpg''\<rparr> out w = (Inr False, w)"
proof -
  have rd: "imread demo_env \<lparr>parent = d, name = ''6.jpg''\<rparr> = Inr (Some (Decoded ''6.jpg'' 600 800))"
    by (simp add: demo_env_def)
  have wr: "imwrite demo_env \<lparr>parent = out, name = ''processed_6.jpg''\<rparr> i = Inl (Error ''cv2.error'')" for i
    by (simp add: demo_env_def)
  have dt: "detect_face_and_eyes demo_env (Decoded ''6.jpg'' 600 800) =
           Inr (Some ((300, 200, 100, 100), [(360, 230, 20, 20), (320, 230, 20, 20)]))"
    by (intro demo_detect) simp_all
  show ?thesis
    by (simp add: process_image_def process_image_body_def rd dt demo_region_large
        demo_step_large wr demo_print Let_def)
qed

lemma demo_raises_only_Exception: "raises_only_Exception demo_env"
  by (simp add: raises_only_Exception_def demo_env_def)

section \<open>Exceptions in \<open>process_image\<close>\<close>

lemma detect_raises_Exception:
  assumes "raises_only_Exception e" and "detect_face_and_eyes e img = Inl x"
  shows "isinstance_Exception x"
  using assms
  by (auto simp: detect_face_and_eyes_def cvtColor_BGR2GRAY_def raises_only_Exception_def
      py_max_def split: sum.splits option.splits if_splits list.splits prod.splits)

lemma crop_resize_raises_Exception:
  assumes "raises_only_Exception e" and "crop_resize_step e img reg = Inl x"
  shows "isinstance_Exception x"
  using assms
  by (cases reg) (auto simp: crop_resize_step_def cv2_resize_def raises_only_Exception_def Let_def
      split: option.splits if_splits)

lemma body_raises_Exception:
  assumes "raises_only_Exception e" and "print_never_raises e"
    and "process_image_body e p out world = (Inl x, world')"
  shows "isinstance_Exception x"
proof -
  from assms(1) have rd: "\<And>p x. imread e p = Inl x \<Longrightarrow> isinstance_Exception x"
    and wr: "\<And>p i x. imwrite e p i = Inl x \<Longrightarrow> isinstance_Exception x"
    by (simp_all add: raises_only_Exception_def)
  from assms(2) have pr: "\<And>m. print_raises e m = None"
    by (simp add: print_never_raises_def)
  from assms(3) show ?thesis
    by (auto simp: process_image_body_def Let_def pr
        split: sum.splits option.splits if_splits
        dest: rd wr detect_raises_Exception [OF assms(1)] crop_resize_raises_Exception [OF assms(1)])
qed

text \<open>
  Where the standard output takes every text and the calls raise errors only,
  \<open>process_image\<close> returns a boolean.
\<close>

lemma process_image_returns:
  assumes "raises_only_Exception e" and "print_never_raises e"
  shows "\<exists>b world'. process_image e p out world = (Inr b, world')"
proof -
  obtain r w where b: "process_image_body e p out world = (r, w)"
    by (cases "process_image_body e p out world") auto
  from assms(2) have pr: "\<And>m. print_raises e m = None"
    by (simp add: print_never_raises_def)
  show ?thesis
  proof (cases r)
    case (Inl x)
    with b assms have "isinstance_Exception x" by (auto intro: body_raises_Exception)
    with b Inl show ?thesis by (auto simp: process_image_def pr)
  next
    case (Inr c)
    with b show ?thesis by (auto simp: process_image_def)
  qed
qed

text \<open>
  The body returns a boolean only after one of its three prints.
\<close>

lemma body_returns_after_print:
  assumes "process_image_body e p out world = (Inr b, world')"
  shows "print_raises e (Could_not_read p) = None
         \<or> print_raises e (No_face_detected p) = None
         \<or> print_raises e (Processed (name p)) = None"
  using assms
  by (auto simp: process_image_body_def Let_def split: sum.splits option.splits if_splits)

text \<open>
  Where the standard output refuses every text that shows the path, \<open>process_image\<close>
  raises, whatever OpenCV does with the file: the body cannot pass its own print, and
  the handler cannot pass its own.
\<close>

lemma process_image_raises_on_refused_prints:
  assumes "print_raises e (Could_not_read p) \<noteq> None"
    and "print_raises e (No_face_detected p) \<noteq> None"
    and "print_raises e (Processed (name p)) \<noteq> None"
    and "\<And>x. print_raises e (Error_processing p x) \<noteq> None"
  shows "\<exists>y. fst (process_image e p out world) = Inl y"
proof -
  obtain r w where b: "process_image_body e p out world = (r, w)"
    by (cases "process_image_body e p out world") auto
  show ?thesis
  proof (cases r)
    case (Inr c)
    with b body_returns_after_print [of e p out world c w] assms(1-3) show ?thesis by auto
  next
    case (Inl x)
    from assms(4) [of x] obtain y where "print_raises e (Error_processing p x) = Some y" by auto
    with b Inl show ?thesis by (auto simp: process_image_def)
  qed
qed

section \<open>The file whose name the standard output cannot encode\<close>

lemma latin1_name_shown: "CHR 0xE9 \<in> set latin1_name"
  by (simp add: latin1_name_def)

lemma strict_imread:
  "imread strict_stdout_env p = (if name p = latin1_name then Inr None else imread demo_env p)"
  by (simp add: strict_stdout_env_def)

lemma strict_print:
  "print_raises strict_stdout_env m =
     (if CHR 0xE9 \<in> set (shown_name m) then Some (Error ''UnicodeEncodeError'') else None)"
  by (simp add: strict_stdout_env_def)

lemma strict_other_calls:
  "cvtColor_raises strict_stdout_env = cvtColor_raises demo_env"
  "face_detectMultiScale strict_stdout_env = face_detectMultiScale demo_env"
  "eye_detectMultiScale strict_stdout_env = eye_detectMultiScale demo_env"
  "resize_raises strict_stdout_env = resize_raises demo_env"
  "imwrite strict_stdout_env = imwrite demo_env"
  "mkdir_raises strict_stdout_env = mkdir_raises demo_env"
  by (simp_all add: strict_stdout_env_def)

lemma strict_detect: "detect_face_and_eyes strict_stdout_env img = detect_face_and_eyes demo_env img"
  unfolding detect_face_and_eyes_def cvtColor_BGR2GRAY_def strict_other_calls by (rule refl)

lemma strict_step: "crop_resize_step strict_stdout_env img reg = crop_resize_step demo_env img reg"
  unfolding crop_resize_step_def cv2_resize_def strict_other_calls by (rule refl)

lemma strict_unprintable_file_raises:
  "process_image strict_stdout_env \<lparr>parent = ''photos'', name = latin1_name\<rparr> ''out'' [] =
     (Inl (Error ''UnicodeEncodeError''), [])"
proof -
  let ?p = "\<lparr>parent = ''photos'', name = latin1_name\<rparr>"
  have rd: "imread strict_stdout_env ?p = Inr None"
    by (simp add: strict_imread)
  have p1: "print_raises strict_stdout_env (Could_not_read ?p) = Some (Error ''UnicodeEncodeError'')"
    by (simp add: strict_print latin1_name_shown)
  have p2: "print_raises strict_stdout_env (Error_processing ?p x) = Some (Error ''UnicodeEncodeError'')"
    for x
    by (simp add: strict_print latin1_name_shown)
  have body: "process_image_body strict_stdout_env ?p ''out'' [] =
      (Inl (Error ''UnicodeEncodeError''), [])"
    by (simp add: process_image_body_def rd p1)
  show ?thesis
    by (simp add: process_image_def body p2)
qed

text \<open>
  C4 fails on the code. The file \<open>photos/caf\<close>\<open>0xE9\<close>\<open>.jpg\<close> cannot be read, the warning of
  line 126 raises \<open>UnicodeEncodeError\<close> inside the \<open>try\<close>, the handler catches it, and
  the handler's own print of line 156 raises \<open>UnicodeEncodeError\<close> again, outside every
  \<open>try\<close>: \<open>process_image\<close> hands an \<open>Exception\<close> to its caller.
\<close>

theorem process_image_raises_from_handler:
  "process_image strict_stdout_env \<lparr>parent = ''photos'', name = latin1_name\<rparr> ''out'' [] =
     (Inl (Error ''UnicodeEncodeError''), [])
   \<and> isinstance_Exception (Error ''UnicodeEncodeError'')"
  using strict_unprintable_file_raises by simp

section \<open>The batch\<close>

text \<open>
  Where the standard output takes every text and the calls raise errors only, the loop
  is the in-order run of \<open>process_image\<close> over all the inputs, and its counters count
  the successes and the failures of that run.
\<close>

lemma process_files_tally:
  assumes "raises_only_Exception e" and "print_never_raises e"
  shows "process_files e fs out (s, f) world =
           (case spec_outcomes e fs out world of
              (bs, world') \<Rightarrow>
                (Inr (s + length (filter (\<lambda>b. b) bs), f + length (filter Not bs)), world'))"
proof (induction fs arbitrary: s f world)
  case Nil
  show ?case by simp
next
  case (Cons p ps)
  obtain b w where r: "process_image e p out world = (Inr b, w)"
    using process_image_returns [OF assms, of p out world] by blast
  show ?case
    by (cases b) (simp_all add: r Cons.IH split: prod.splits)
qed

lemma spec_outcomes_length: "length (fst (spec_outcomes e fs out world)) = length fs"
proof (induction fs arbitrary: world)
  case Nil
  show ?case by simp
next
  case (Cons p ps)
  obtain r w where r: "process_image e p out world = (r, w)"
    by (cases "process_image e p out world") auto
  obtain bs w' where bs: "spec_outcomes e ps out w = (bs, w')"
    by (cases "spec_outcomes e ps out w") auto
  from Cons.IH [of w] bs have "length bs = length ps" by simp
  then show ?case by (simp add: r bs)
qed

lemma filter_id_Not_length:
  "length (filter (\<lambda>b. b) bs) + length (filter Not bs) = length bs"
  by (induction bs) auto

lemma filter_id_pos: "filter (\<lambda>b. b) bs \<noteq> [] \<longleftrightarrow> True \<in> set bs"
  by (induction bs) auto

lemma print_summary_quiet: "print_never_raises e \<Longrightarrow> print_summary e s f = None"
  by (simp add: print_summary_def print_never_raises_def)

lemma process_folder_tally:
  assumes "raises_only_Exception e" and "print_never_raises e"
    and found: "get_image_files e input_folder = Inr image_files"
    and made: "image_files \<noteq> [] \<longrightarrow> mkdir_raises e out = None"
    and so: "spec_outcomes e image_files out world = (bs, world')"
  shows "length bs = length image_files"
    and "process_files e image_files out (0, 0) world =
           (Inr (length (filter (\<lambda>b. b) bs), length (filter Not bs)), world')"
    and "length (filter (\<lambda>b. b) bs) + length (filter Not bs) = length image_files"
    and "process_folder e input_folder out world = (Inr (True \<in> set bs), world')"
proof -
  from assms(2) have pr: "\<And>m. print_raises e m = None"
    by (simp add: print_never_raises_def)
  show len: "length bs = length image_files"
    using spec_outcomes_length [of e image_files out world] so by simp
  show pf: "process_files e image_files out (0, 0) world =
               (Inr (length (filter (\<lambda>b. b) bs), length (filter Not bs)), world')"
    using process_files_tally [OF assms(1,2), of image_files out 0 0 world] so by simp
  show "length (filter (\<lambda>b. b) bs) + length (filter Not bs) = length image_files"
    using filter_id_Not_length [of bs] len by simp
  show "process_folder e input_folder out world = (Inr (True \<in> set bs), world')"
  proof (cases "image_files = []")
    case True
    with so found show ?thesis by (simp add: process_folder_def pr)
  next
    case False
    with found made show ?thesis
      by (simp add: process_folder_def pf pr filter_id_pos print_summary_quiet [OF assms(2)]
          del: process_files.simps)
  qed
qed

text \<open>
  The example of five inputs, the third unreadable and the fourth without a face, in
  the first environment: three successes, two failures, three files, success reported.
\<close>

lemma demo_discovery:
  "get_image_files demo_env ''in'' =
     Inr [\<lparr>parent = ''in'', name = ''1.jpg''\<rparr>, \<lparr>parent = ''in'', name = ''2.jpg''\<rparr>,
       \<lparr>parent = ''in'', name = ''3.jpg''\<rparr>, \<lparr>parent = ''in'', name = ''4.jpg''\<rparr>,
       \<lparr>parent = ''in'', name = ''5.jpg''\<rparr>]"
  by (simp add: get_image_files_def demo_env_def supported_formats_def)

lemma demo_five:
  "process_files demo_env
      [\<lparr>parent = ''in'', name = ''1.jpg''\<rparr>, \<lparr>parent = ''in'', name = ''2.jpg''\<rparr>,
       \<lparr>parent = ''in'', name = ''3.jpg''\<rparr>, \<lparr>parent = ''in'', name = ''4.jpg''\<rparr>,
       \<lparr>parent = ''in'', name = ''5.jpg''\<rparr>] ''out'' (0, 0) [] =
     (Inr (3, 2),
      [(\<lparr>parent = ''out'', name = ''processed_1.jpg''\<rparr>,
          Slice (Decoded ''1.jpg'' 600 800) 70 582 94 606),
       (\<lparr>parent = ''out'', name = ''processed_2.jpg''\<rparr>,
          Resized (Slice (Decoded ''2.jpg'' 300 400) 0 300 0 400) 512 512 INTER_LANCZOS4),
       (\<lparr>parent = ''out'', name = ''processed_5.jpg''\<rparr>,
          Slice (Decoded ''5.jpg'' 600 800) 70 582 94 606)])"
  by (simp add: demo_process_large demo_process_small demo_process_unreadable
      demo_process_no_face)

lemma demo_folder:
  "process_folder demo_env ''in'' ''out'' [] =
     (Inr True,
      [(\<lparr>parent = ''out'', name = ''processed_1.jpg''\<rparr>,
          Slice (Decoded ''1.jpg'' 600 800) 70 582 94 606),
       (\<lparr>parent = ''out'', name = ''processed_2.jpg''\<rparr>,
          Resized (Slice (Decoded ''2.jpg'' 300 400) 0 300 0 400) 512 512 INTER_LANCZOS4),
       (\<lparr>parent = ''out'', name = ''processed_5.jpg''\<rparr>,
          Slice (Decoded ''5.jpg'' 600 800) 70 582 94 606)])"
proof -
  have "mkdir_raises demo_env ''out'' = None" by (simp add: demo_env_def)
  then show ?thesis
    by (simp add: process_folder_def demo_discovery demo_five demo_print print_summary_def
        del: process_files.simps)
qed

section \<open>The batch and the file whose name cannot be printed\<close>

lemma strict_process_image:
  assumes "CHR 0xE9 \<notin> set (name p)"
  shows "process_image strict_stdout_env p out w = process_image demo_env p out w"
proof -
  from assms latin1_name_shown have "name p \<noteq> latin1_name" by auto
  then have rd: "imread strict_stdout_env p = imread demo_env p"
    by (simp add: strict_imread)
  have pr: "print_raises strict_stdout_env (Could_not_read p) = print_raises demo_env (Could_not_read p)"
    "print_raises strict_stdout_env (No_face_detected p) = print_raises demo_env (No_face_detected p)"
    "print_raises strict_stdout_env (Processed (name p)) = print_raises demo_env (Processed (name p))"
    "\<And>x. print_raises strict_stdout_env (Error_processing p x) =
           print_raises demo_env (Error_processing p x)"
    using assms by (simp_all add: strict_print demo_print)
  show ?thesis
    unfolding process_image_def process_image_body_def rd pr strict_detect strict_step
      strict_other_calls
    by (rule refl)
qed

text \<open>
  C5 fails on the code, by the unprotected print in the handler of \<open>process_image\<close>
  (line 156). The folder \<open>photos\<close> holds the file
  \<open>caf\<close>\<open>0xE9\<close>\<open>.jpg\<close> and then \<open>1.jpg\<close> and \<open>5.jpg\<close>, each of which \<open>process_image\<close> would
  process with success. All three are discovered. The loop calls \<open>process_image\<close> on
  the first, which raises \<open>UnicodeEncodeError\<close>; the loop stands in no \<open>try\<close>, so
  \<open>process_folder\<close> raises too: the two other inputs are never processed, nothing is
  written, and no count and no result are reported.
\<close>

theorem process_folder_stops_at_first_raise:
  "get_image_files strict_stdout_env ''photos'' =
     Inr [\<lparr>parent = ''photos'', name = latin1_name\<rparr>, \<lparr>parent = ''photos'', name = ''1.jpg''\<rparr>,
          \<lparr>parent = ''photos'', name = ''5.jpg''\<rparr>]
   \<and> process_files strict_stdout_env
       [\<lparr>parent = ''photos'', name = latin1_name\<rparr>, \<lparr>parent = ''photos'', name = ''1.jpg''\<rparr>,
        \<lparr>parent = ''photos'', name = ''5.jpg''\<rparr>] ''out'' (0, 0) [] =
     (Inl (Error ''UnicodeEncodeError''), [])
   \<and> process_folder strict_stdout_env ''photos'' ''out'' [] =
     (Inl (Error ''UnicodeEncodeError''), [])
   \<and> fst (process_image strict_stdout_env \<lparr>parent = ''photos'', name = ''1.jpg''\<rparr> ''out'' []) =
     Inr True
   \<and> fst (process_image strict_stdout_env \<lparr>parent = ''photos'', name = ''5.jpg''\<rparr> ''out'' []) =
     Inr True"
proof (intro conjI)
  let ?bad = "\<lparr>parent = ''photos'', name = latin1_name\<rparr>"
  let ?p1 = "\<lparr>parent = ''photos'', name = ''1.jpg''\<rparr>"
  let ?p5 = "\<lparr>parent = ''photos'', name = ''5.jpg''\<rparr>"
  show found: "get_image_files strict_stdout_env ''photos'' = Inr [?bad, ?p1, ?p5]"
    by (simp add: get_image_files_def strict_stdout_env_def supported_formats_def)
  have bad: "process_image strict_stdout_env ?bad ''out'' [] = (Inl (Error ''UnicodeEncodeError''), [])"
    by (rule strict_unprintable_file_raises)
  show loop: "process_files strict_stdout_env [?bad, ?p1, ?p5] ''out'' (0, 0) [] =
      (Inl (Error ''UnicodeEncodeError''), [])"
    by (simp add: bad)
  have quiet: "print_raises strict_stdout_env (Found_images n) = None"
    "print_raises strict_stdout_env (Output_folder_ready ''out'') = None" for n
    by (simp_all add: strict_print)
  have made: "mkdir_raises strict_stdout_env ''out'' = None"
    by (simp add: strict_other_calls demo_env_def)
  show "process_folder strict_stdout_env ''photos'' ''out'' [] =
      (Inl (Error ''UnicodeEncodeError''), [])"
    by (simp add: process_folder_def found quiet made loop del: process_files.simps)
  show "fst (process_image strict_stdout_env ?p1 ''out'' []) = Inr True"
    by (simp add: strict_process_image demo_process_large)
  show "fst (process_image strict_stdout_env ?p5 ''out'' []) = Inr True"
    by (simp add: strict_process_image demo_process_large)
qed

section \<open>Worked instances\<close>

theorem crop_resize_step_normalizes_witness:
  "crop_resize_step demo_env (Decoded ''1.jpg'' 600 800) (94, 70, 606, 582) =
      Inr (Slice (Decoded ''1.jpg'' 600 800) 70 582 94 606)
   \<and> crop_resize_step demo_env (Decoded ''2.jpg'' 300 400) (0, 0, 400, 300) =
      cv2_resize demo_env (Slice (Decoded ''2.jpg'' 300 400) 0 300 0 400) (512, 512) INTER_LANCZOS4
   \<and> rows (Resized (Slice (Decoded ''2.jpg'' 300 400) 0 300 0 400) 512 512 INTER_LANCZOS4) = 512
   \<and> cols (Resized (Slice (Decoded ''2.jpg'' 300 400) 0 300 0 400) 512 512 INTER_LANCZOS4) = 512"
proof -
  let ?big = "Slice (Decoded ''1.jpg'' 600 800) 70 582 94 606"
  let ?small = "Slice (Decoded ''2.jpg'' 300 400) 0 300 0 400"
  let ?out = "Resized ?small 512 512 INTER_LANCZOS4"
  let ?path = "\<lparr>parent = ''out'', name = ''processed_2.jpg''\<rparr>"
  have s1: "rows ?big = 512 \<and> cols ?big = 512"
    by (simp add: slice_len_def slice_bound_def)
  have s2: "rows ?small \<noteq> 512"
    by (simp add: slice_len_def slice_bound_def)
  note A = crop_resize_step_normalizes [where e = demo_env and img = "Decoded ''1.jpg'' 600 800"
        and t = 70 and b = 582 and l = 94 and r = 606 and final = ?big
        and image_path = "\<lparr>parent = ''in'', name = ''3.jpg''\<rparr>" and output_folder = "''out''"
        and world = "[]" and res = "Inr False" and world' = "[]"]
  note B = crop_resize_step_normalizes [where e = demo_env and img = "Decoded ''2.jpg'' 300 400"
        and t = 0 and b = 300 and l = 0 and r = 400 and final = ?out
        and image_path = "\<lparr>parent = ''in'', name = ''2.jpg''\<rparr>" and output_folder = "''out''"
        and world = "[]" and res = "Inr True" and world' = "[(?path, ?out)]"]
  from A s1 have 1: "crop_resize_step demo_env (Decoded ''1.jpg'' 600 800) (94, 70, 606, 582) = Inr ?big"
    by blast
  from B s2 have 2: "crop_resize_step demo_env (Decoded ''2.jpg'' 300 400) (0, 0, 400, 300) =
      cv2_resize demo_env ?small (512, 512) INTER_LANCZOS4"
    by blast
  have run: "process_image demo_env \<lparr>parent = ''in'', name = ''2.jpg''\<rparr> ''out'' [] =
      (Inr True, [(?path, ?out)])"
    using demo_process_small [of "''in''" "''out''" "[]"] by simp
  from B run obtain new where new: "[(?path, ?out)] = [] @ new"
      and all: "\<forall>(path, out)\<in>set new. rows out = 512 \<and> cols out = 512"
    by blast
  from new have "new = [(?path, ?out)]" by simp
  then have "(?path, ?out) \<in> set new" by simp
  with all have 3: "rows ?out = 512 \<and> cols ?out = 512" by blast
  from 1 2 3 show ?thesis by blast
qed

theorem detect_face_and_eyes_contract_witness:
  "detect_face_and_eyes demo_env (Decoded ''1.jpg'' 600 800) =
      Inr (Some ((300, 200, 100, 100), [(360, 230, 20, 20), (320, 230, 20, 20)]))
   \<and> detect_face_and_eyes demo_env (Decoded ''4.jpg'' 600 800) = Inr None
   \<and> process_image demo_env \<lparr>parent = ''in'', name = ''4.jpg''\<rparr> ''out'' [] = (Inr False, [])"
proof -
  have f1: "face_detectMultiScale demo_env (Gray (Decoded ''1.jpg'' 600 800)) =
      Inr [(10, 10, 20, 20), (300, 200, 100, 100)]"
    and c: "cvtColor_raises demo_env i = None"
    and ey: "eye_detectMultiScale demo_env roi = Inr [(60, 30, 20, 20), (20, 30, 20, 20)]"
    and f4: "face_detectMultiScale demo_env (Gray (Decoded ''4.jpg'' 600 800)) = Inr []"
    and r4: "imread demo_env \<lparr>parent = ''in'', name = ''4.jpg''\<rparr> = Inr (Some (Decoded ''4.jpg'' 600 800))"
    for i roi
    by (simp_all add: demo_env_def)
  from detect_face_and_eyes_contract [where e = demo_env and img = "Decoded ''1.jpg'' 600 800"
      and faces = "[(10, 10, 20, 20), (300, 200, 100, 100)]"] f1 c
  obtain x y w h where in_faces: "(x, y, w, h) \<in> set [(10, 10, 20, 20), (300, 200, 100, 100)]"
    and largest: "\<forall>(fx, fy, fw, fh)\<in>set [(10, 10, 20, 20), (300, 200, 100, 100)]. fw * fh \<le> w * h"
    and eyes: "\<forall>eyes. eye_detectMultiScale demo_env (Slice (Gray (Decoded ''1.jpg'' 600 800)) y (y + h) x (x + w)) = Inr eyes \<longrightarrow>
                detect_face_and_eyes demo_env (Decoded ''1.jpg'' 600 800) =
                  Inr (Some ((x, y, w, h),
                             map (\<lambda>(ex, ey, ew, eh). (x + ex, y + ey, ew, eh)) eyes))"
    by auto
  from in_faces largest have "(x, y, w, h) = (300, 200, 100, 100)" by auto
  with eyes ey have 1: "detect_face_and_eyes demo_env (Decoded ''1.jpg'' 600 800) =
      Inr (Some ((300, 200, 100, 100), [(360, 230, 20, 20), (320, 230, 20, 20)]))"
    by simp
  from detect_face_and_eyes_contract [where e = demo_env and img = "Decoded ''4.jpg'' 600 800"
      and p = "\<lparr>parent = ''in'', name = ''4.jpg''\<rparr>" and out = "''out''" and world = "[]"]
    f4 c r4 demo_print [of "No_face_detected \<lparr>parent = ''in'', name = ''4.jpg''\<rparr>"]
  have 2: "detect_face_and_eyes demo_env (Decoded ''4.jpg'' 600 800) = Inr None"
    and 3: "process_image demo_env \<lparr>parent = ''in'', name = ''4.jpg''\<rparr> ''out'' [] = (Inr False, [])"
    by blast+
  from 1 2 3 show ?thesis by simp
qed

end
